theory Spec2Isabelle
  imports Main "HOL-Library.Char_ord" "HOL-Library.List_Lexorder" "HOL-Library.Multiset"
begin

section \<open>Data model\<close>

text \<open>
  Modelled from the spec: the types \<^verbatim>\<open>Contact\<close>, \<^verbatim>\<open>IdentifyRequest\<close> and \<^verbatim>\<open>IdentifyResponse\<close>
  of \<^verbatim>\<open>types.ts\<close>, which is not among the sources. The fields are those of sections 3
  and 6 of the specification, under the names that \<^verbatim>\<open>schema.sql\<close>, the statements of
  \<^verbatim>\<open>db.ts\<close> and \<^verbatim>\<open>identify\<close> use for them.

  The columns that \<^verbatim>\<open>createContact\<close> receives
  (\<^verbatim>\<open>Omit<Contact, "id" | "createdAt" | "updatedAt" | "deletedAt">\<close>) form the base
  record; the full row extends it. The column \<^verbatim>\<open>id\<close> is the field \<open>id_c\<close>
  (\<open>id\<close> is the identity function of HOL); the fields of a request carry the suffix
  \<open>_r\<close> and those of an update the suffix \<open>_u\<close>, a field name being global in HOL.
  A JavaScript \<^verbatim>\<open>null\<close> or \<^verbatim>\<open>undefined\<close> is \<open>None\<close>.

  A timestamp is the value of a \<^verbatim>\<open>TIMESTAMP WITH TIME ZONE\<close> column, which PostgreSQL
  keeps to the microsecond: the number of microseconds since the epoch. The driver hands
  it to JavaScript as a \<^verbatim>\<open>Date\<close>, which keeps whole milliseconds only; \<open>getTime\<close> is
  \<^verbatim>\<open>Date.getTime()\<close> of that \<^verbatim>\<open>Date\<close>. The rows below keep the stored value, and the code
  reads it through \<open>getTime\<close>.
\<close>

datatype LinkPrecedence = Primary | Secondary

record ContactData =
  phoneNumber :: "string option"
  email :: "string option"
  linkedId :: "int option"
  linkPrecedence :: LinkPrecedence

record Contact = ContactData +
  id_c :: int
  createdAt :: int
  updatedAt :: int
  deletedAt :: "int option"

definition getTime :: "int \<Rightarrow> int" where
  "getTime t = t div 1000"

text \<open>The \<^verbatim>\<open>data\<close> argument of \<^verbatim>\<open>updateContacts\<close>: a partial record; a key that is
  not given is \<open>None\<close>, and \<^verbatim>\<open>linkedId\<close> may be given as \<^verbatim>\<open>null\<close> (\<open>Some None\<close>).\<close>

record ContactPatch =
  linkPrecedence_u :: "LinkPrecedence option"
  linkedId_u :: "int option option"

record IdentifyRequest =
  email_r :: "string option"
  phoneNumber_r :: "string option"

record ContactView =
  primaryContactId :: int
  emails :: "string list"
  phoneNumbers :: "string list"
  secondaryContactIds :: "int list"

record IdentifyResponse =
  contact :: ContactView

text \<open>A thrown JavaScript \<^verbatim>\<open>Error\<close> with its message.\<close>

datatype error = Error string

text \<open>JavaScript truthiness of an optional string: \<^verbatim>\<open>null\<close>, \<^verbatim>\<open>undefined\<close> and the empty
  string are falsy. \<open>orNull\<close> is the expression \<^verbatim>\<open>x || null\<close>.\<close>

definition truthy :: "string option \<Rightarrow> bool" where
  "truthy s = (case s of None \<Rightarrow> False | Some v \<Rightarrow> v \<noteq> [])"

definition orNull :: "string option \<Rightarrow> string option" where
  "orNull s = (if truthy s then s else None)"

section \<open>The store\<close>

text \<open>
  The PostgreSQL database as the code sees it: the committed rows of \<^verbatim>\<open>Contact\<close> in
  table order, the working copy of the open transaction (\<open>None\<close> when no transaction is
  open), the sequence behind \<^verbatim>\<open>id SERIAL\<close> (its next value; a sequence is not rolled
  back), and the number of statements the server has received so far.
\<close>

record Database =
  contacts :: "Contact list"
  pending :: "Contact list option"
  contact_id_seq :: int
  statements :: nat

text \<open>
  The environment of one request: \<open>faults n\<close> is \<open>Some msg\<close> when the statement sent as
  the \<open>n\<close>-th one fails with that message; \<open>connectFault\<close> is the failure of
  \<^verbatim>\<open>pool.connect()\<close>, if any; \<open>now\<close> is the transaction's \<^verbatim>\<open>CURRENT_TIMESTAMP\<close>,
  in microseconds.
\<close>

record Env =
  faults :: "nat \<Rightarrow> string option"
  connectFault :: "string option"
  now :: int

text \<open>An asynchronous computation against the store: it either throws or returns, and
  leaves the store in a new state either way.\<close>

type_synonym 'a io = "Database \<Rightarrow> (error + 'a) \<times> Database"

definition resolve :: "'a \<Rightarrow> 'a io" where
  "resolve x db = (Inr x, db)"

definition reject :: "error \<Rightarrow> 'a io" where
  "reject e db = (Inl e, db)"

definition andThen :: "'a io \<Rightarrow> ('a \<Rightarrow> 'b io) \<Rightarrow> 'b io" where
  "andThen m f db = (case m db of (Inl e, db') \<Rightarrow> (Inl e, db') | (Inr x, db') \<Rightarrow> f x db')"

definition visible :: "Database \<Rightarrow> Contact list" where
  "visible db = (case pending db of Some w \<Rightarrow> w | None \<Rightarrow> contacts db)"

definition store :: "Contact list \<Rightarrow> Database \<Rightarrow> Database" where
  "store rows db = (case pending db of Some w \<Rightarrow> db\<lparr>pending := Some rows\<rparr>
                                      | None \<Rightarrow> db\<lparr>contacts := rows\<rparr>)"

text \<open>\<^verbatim>\<open>client.query\<close>: the statement is counted, then fails or runs.\<close>

definition query :: "Env \<Rightarrow> (Database \<Rightarrow> 'a \<times> Database) \<Rightarrow> 'a io" where
  "query env run db =
     (let db1 = db\<lparr>statements := Suc (statements db)\<rparr>
      in case faults env (statements db) of
           Some msg \<Rightarrow> (Inl (Error msg), db1)
         | None \<Rightarrow> (case run db1 of (x, db2) \<Rightarrow> (Inr x, db2)))"

subsection \<open>The statements of \<^verbatim>\<open>db.ts\<close> on a list of rows\<close>

text \<open>\<^verbatim>\<open>ORDER BY "createdAt" ASC\<close> compares the stored timestamps, microseconds
  included. PostgreSQL leaves the order of rows with the same \<^verbatim>\<open>createdAt\<close> open; here
  they come in table order.\<close>

definition findContacts_rows ::
  "Contact list \<Rightarrow> string option \<Rightarrow> string option \<Rightarrow> Contact list" where
  "findContacts_rows rows e p =
     (if truthy e \<or> truthy p
      then sort_key createdAt
             (filter (\<lambda>c. ((truthy e \<and> email c = e) \<or> (truthy p \<and> phoneNumber c = p))
                           \<and> deletedAt c = None) rows)
      else [])"

definition findById_rows :: "Contact list \<Rightarrow> int \<Rightarrow> Contact option" where
  "findById_rows rows i = find (\<lambda>c. id_c c = i \<and> deletedAt c = None) rows"

definition findByLinkedId_rows :: "Contact list \<Rightarrow> int \<Rightarrow> Contact list" where
  "findByLinkedId_rows rows l = filter (\<lambda>c. linkedId c = Some l \<and> deletedAt c = None) rows"

definition queryAllLinkedContacts_rows :: "Contact list \<Rightarrow> int \<Rightarrow> Contact list" where
  "queryAllLinkedContacts_rows rows p =
     sort_key createdAt
       (filter (\<lambda>c. (id_c c = p \<or> linkedId c = Some p) \<and> deletedAt c = None) rows)"

definition newContact :: "int \<Rightarrow> int \<Rightarrow> ContactData \<Rightarrow> Contact" where
  "newContact i t d =
     \<lparr>phoneNumber = phoneNumber d, email = email d, linkedId = linkedId d,
      linkPrecedence = linkPrecedence d,
      id_c = i, createdAt = t, updatedAt = t, deletedAt = None\<rparr>"

definition applyPatch :: "int \<Rightarrow> ContactPatch \<Rightarrow> Contact \<Rightarrow> Contact" where
  "applyPatch t d c =
     (let c1 = (case linkPrecedence_u d of Some r \<Rightarrow> c\<lparr>linkPrecedence := r\<rparr> | None \<Rightarrow> c);
          c2 = (case linkedId_u d of Some l \<Rightarrow> c1\<lparr>linkedId := l\<rparr> | None \<Rightarrow> c1)
      in c2\<lparr>updatedAt := t\<rparr>)"

definition updateContacts_rows ::
  "int \<Rightarrow> Contact list \<Rightarrow> int list \<Rightarrow> ContactPatch \<Rightarrow> Contact list" where
  "updateContacts_rows t rows ids d =
     map (\<lambda>c. if id_c c \<in> set ids then applyPatch t d c else c) rows"

subsection \<open>\<^verbatim>\<open>PostgresDBClient\<close>\<close>

definition findContacts :: "Env \<Rightarrow> string option \<Rightarrow> string option \<Rightarrow> Contact list io" where
  "findContacts env e p = query env (\<lambda>db. (findContacts_rows (visible db) e p, db))"

definition createContact :: "Env \<Rightarrow> ContactData \<Rightarrow> Contact io" where
  "createContact env d =
     query env (\<lambda>db.
       let c = newContact (contact_id_seq db) (now env) d
       in (c, store (visible db @ [c]) (db\<lparr>contact_id_seq := contact_id_seq db + 1\<rparr>)))"

definition updateContacts :: "Env \<Rightarrow> int list \<Rightarrow> ContactPatch \<Rightarrow> unit io" where
  "updateContacts env ids d =
     (if ids = [] \<or> (linkPrecedence_u d = None \<and> linkedId_u d = None)
      then resolve ()
      else query env (\<lambda>db. ((), store (updateContacts_rows (now env) (visible db) ids d) db)))"

definition findById :: "Env \<Rightarrow> int \<Rightarrow> Contact option io" where
  "findById env i = query env (\<lambda>db. (findById_rows (visible db) i, db))"

definition findByLinkedId :: "Env \<Rightarrow> int \<Rightarrow> Contact list io" where
  "findByLinkedId env l = query env (\<lambda>db. (findByLinkedId_rows (visible db) l, db))"

definition queryAllLinkedContacts :: "Env \<Rightarrow> int \<Rightarrow> Contact list io" where
  "queryAllLinkedContacts env p =
     query env (\<lambda>db. (queryAllLinkedContacts_rows (visible db) p, db))"

text \<open>\<^verbatim>\<open>BEGIN\<close>, \<^verbatim>\<open>COMMIT\<close> and \<^verbatim>\<open>ROLLBACK\<close>. There is one connection, and
  \<^verbatim>\<open>pool.connect()\<close> hands it out in the state in which \<^verbatim>\<open>client.release()\<close> left it: a
  transaction that was not ended is still open. \<^verbatim>\<open>BEGIN\<close> opens a transaction on the
  committed rows; inside an open transaction it changes nothing (PostgreSQL answers with
  a warning). A rollback ends the transaction whether or not the statement itself
  reports success, so it is not subject to \<open>faults\<close>.\<close>

definition begin_stmt :: "Env \<Rightarrow> unit io" where
  "begin_stmt env =
     query env (\<lambda>db. ((), case pending db of None \<Rightarrow> db\<lparr>pending := Some (contacts db)\<rparr>
                                            | Some w \<Rightarrow> db))"

definition commit_stmt :: "Env \<Rightarrow> unit io" where
  "commit_stmt env =
     query env (\<lambda>db. ((), case pending db of None \<Rightarrow> db
                                            | Some w \<Rightarrow> db\<lparr>contacts := w, pending := None\<rparr>))"

definition rollback_stmt :: "Database \<Rightarrow> Database" where
  "rollback_stmt db = db\<lparr>pending := None, statements := Suc (statements db)\<rparr>"

definition transaction :: "Env \<Rightarrow> 'a io \<Rightarrow> 'a io" where
  "transaction env callback db =
     (case connectFault env of
        Some msg \<Rightarrow> (Inl (Error msg), db)
      | None \<Rightarrow>
         (case andThen (begin_stmt env) (\<lambda>_.
                 andThen callback (\<lambda>result.
                 andThen (commit_stmt env) (\<lambda>_. resolve result))) db of
            (Inr result, db') \<Rightarrow> (Inr result, db')
          | (Inl e, db') \<Rightarrow> (Inl e, rollback_stmt db')))"

section \<open>\<^verbatim>\<open>identify\<close>\<close>

text \<open>\<^verbatim>\<open>Set.add\<close> on the insertion-ordered elements of a JavaScript \<^verbatim>\<open>Set\<close>, and
  \<^verbatim>\<open>Map.set\<close> on the insertion-ordered entries of a \<^verbatim>\<open>Map\<close>: an existing key keeps
  its position and takes the new value.\<close>

definition Set_add :: "'a list \<Rightarrow> 'a \<Rightarrow> 'a list" where
  "Set_add s x = (if x \<in> set s then s else s @ [x])"

fun Map_set :: "('k \<times> 'v) list \<Rightarrow> 'k \<Rightarrow> 'v \<Rightarrow> ('k \<times> 'v) list" where
  "Map_set [] k v = [(k, v)]"
| "Map_set ((k', v') # m) k v = (if k' = k then (k, v) # m else (k', v') # Map_set m k v)"

definition uniqueById :: "Contact list \<Rightarrow> Contact list" where
  "uniqueById cs = map snd (foldl (\<lambda>m c. Map_set m (id_c c) c) [] cs)"

text \<open>Lines 37--43: the ids that the directly found secondaries link to.\<close>

definition linkedPrimaryIds :: "Contact list \<Rightarrow> int list" where
  "linkedPrimaryIds secondaryContacts =
     foldl (\<lambda>s c. case linkedId c of None \<Rightarrow> s | Some l \<Rightarrow> Set_add s l) [] secondaryContacts"

text \<open>Lines 45--50: each linked id is looked up; it is pushed when it is a live primary
  and skipped otherwise.\<close>

fun pushLinkedPrimaries :: "Env \<Rightarrow> int list \<Rightarrow> Contact list \<Rightarrow> Contact list io" where
  "pushLinkedPrimaries env [] primaryContacts = resolve primaryContacts"
| "pushLinkedPrimaries env (i # ids) primaryContacts =
     andThen (findById env i) (\<lambda>primary.
       pushLinkedPrimaries env ids
         (case primary of
            None \<Rightarrow> primaryContacts
          | Some p \<Rightarrow> if linkPrecedence p = Primary then primaryContacts @ [p]
                      else primaryContacts))"

text \<open>Lines 20--55: the sorted, deduplicated primaries that the request touches.\<close>

definition loadPrimaryContacts :: "Env \<Rightarrow> IdentifyRequest \<Rightarrow> Contact list io" where
  "loadPrimaryContacts env request =
     andThen (findContacts env (email_r request) (phoneNumber_r request)) (\<lambda>existingContacts.
       let primaryContacts = filter (\<lambda>c. linkPrecedence c = Primary) existingContacts;
           secondaryContacts = filter (\<lambda>c. linkPrecedence c \<noteq> Primary) existingContacts
       in andThen (pushLinkedPrimaries env (linkedPrimaryIds secondaryContacts) primaryContacts)
            (\<lambda>pushed. resolve (sort_key (\<lambda>c. getTime (createdAt c)) (uniqueById pushed))))"

text \<open>Lines 84--88: \<^verbatim>\<open>Promise.all\<close> over \<^verbatim>\<open>findByLinkedId\<close>; the queries go out in order
  on the one client and the first failure rejects.\<close>

fun findAllByLinkedId :: "Env \<Rightarrow> int list \<Rightarrow> Contact list list io" where
  "findAllByLinkedId env [] = resolve []"
| "findAllByLinkedId env (i # ids) =
     andThen (findByLinkedId env i) (\<lambda>r.
       andThen (findAllByLinkedId env ids) (\<lambda>rs. resolve (r # rs)))"

text \<open>Lines 73--97: demote the other primaries and relink their secondaries.\<close>

definition mergePrimaries :: "Env \<Rightarrow> Contact \<Rightarrow> Contact list \<Rightarrow> unit io" where
  "mergePrimaries env ultimatePrimary others =
     (let demotedPrimaryIds = map id_c others
      in if demotedPrimaryIds \<noteq> []
         then andThen (updateContacts env demotedPrimaryIds
                         \<lparr>linkPrecedence_u = Some Secondary,
                          linkedId_u = Some (Some (id_c ultimatePrimary))\<rparr>) (\<lambda>_.
              andThen (findAllByLinkedId env demotedPrimaryIds) (\<lambda>found.
                let secondariesToRelink = concat found
                in if secondariesToRelink \<noteq> []
                   then updateContacts env (map id_c secondariesToRelink)
                          \<lparr>linkPrecedence_u = None,
                           linkedId_u = Some (Some (id_c ultimatePrimary))\<rparr>
                   else resolve ()))
         else resolve ())"

text \<open>Lines 105--118: one record of the group has to match both fields.\<close>

definition exactMatchFoundInGroup :: "IdentifyRequest \<Rightarrow> Contact list \<Rightarrow> bool" where
  "exactMatchFoundInGroup request currentReconciledGroup =
     list_ex (\<lambda>c. (email_r request = None \<or> email_r request = email c)
                \<and> (phoneNumber_r request = None \<or> phoneNumber_r request = phoneNumber c))
       currentReconciledGroup"

text \<open>Lines 99--136.\<close>

definition createSecondaryIfNew :: "Env \<Rightarrow> IdentifyRequest \<Rightarrow> Contact \<Rightarrow> unit io" where
  "createSecondaryIfNew env request ultimatePrimary =
     andThen (queryAllLinkedContacts env (id_c ultimatePrimary)) (\<lambda>currentReconciledGroup.
       if \<not> exactMatchFoundInGroup request currentReconciledGroup
          \<and> (truthy (email_r request) \<or> truthy (phoneNumber_r request))
       then andThen (createContact env
                       \<lparr>phoneNumber = orNull (phoneNumber_r request),
                        email = orNull (email_r request),
                        linkedId = Some (id_c ultimatePrimary),
                        linkPrecedence = Secondary\<rparr>) (\<lambda>_. resolve ())
       else resolve ())"

text \<open>Lines 145--167: the response built from the reloaded group.\<close>

definition collect :: "(Contact \<Rightarrow> string option) \<Rightarrow> Contact list \<Rightarrow> string list" where
  "collect field cs = foldl (\<lambda>s c. if truthy (field c) then Set_add s (the (field c)) else s) [] cs"

definition buildResponse :: "Contact \<Rightarrow> Contact list \<Rightarrow> IdentifyResponse" where
  "buildResponse ultimatePrimary allLinkedContacts =
     \<lparr>contact =
        \<lparr>primaryContactId = id_c ultimatePrimary,
         emails = sort (collect email allLinkedContacts),
         phoneNumbers = sort (collect phoneNumber allLinkedContacts),
         secondaryContactIds =
           sort (map id_c (filter (\<lambda>c. linkPrecedence c = Secondary
                                       \<and> linkedId c = Some (id_c ultimatePrimary))
                             allLinkedContacts))\<rparr>\<rparr>"

definition assembleResponse :: "Env \<Rightarrow> Contact \<Rightarrow> IdentifyResponse io" where
  "assembleResponse env ultimatePrimary =
     andThen (queryAllLinkedContacts env (id_c ultimatePrimary)) (\<lambda>allLinkedContacts.
       resolve (buildResponse ultimatePrimary allLinkedContacts))"

text \<open>Lines 19--168: the callback run inside the transaction.\<close>

definition reconcile :: "Env \<Rightarrow> IdentifyRequest \<Rightarrow> IdentifyResponse io" where
  "reconcile env request =
     andThen (loadPrimaryContacts env request) (\<lambda>primaryContacts.
       case primaryContacts of
         [] \<Rightarrow>
           andThen (createContact env
                      \<lparr>phoneNumber = orNull (phoneNumber_r request),
                       email = orNull (email_r request),
                       linkedId = None,
                       linkPrecedence = Primary\<rparr>) (\<lambda>ultimatePrimary.
             assembleResponse env ultimatePrimary)
       | ultimatePrimary # others \<Rightarrow>
           andThen (mergePrimaries env ultimatePrimary others) (\<lambda>_.
           andThen (createSecondaryIfNew env request ultimatePrimary) (\<lambda>_.
             assembleResponse env ultimatePrimary)))"

definition validationMessage :: string where
  "validationMessage = ''At least one of email or phoneNumber must be provided.''"

definition identify :: "Env \<Rightarrow> IdentifyRequest \<Rightarrow> IdentifyResponse io" where
  "identify env request =
     (if \<not> truthy (email_r request) \<and> \<not> truthy (phoneNumber_r request)
      then reject (Error validationMessage)
      else transaction env (reconcile env request))"

section \<open>The Lambda handler\<close>

text \<open>
  \<^verbatim>\<open>event.body\<close> is missing (or empty), or a text that \<^verbatim>\<open>JSON.parse\<close> rejects with some
  message, or the JSON of a request.
\<close>

datatype EventBody = NoBody | Unparsable string | Json IdentifyRequest

datatype ResultBody = Message string | Result IdentifyResponse

record ProxyResult =
  statusCode :: nat
  body :: ResultBody

definition errorMessage :: "error \<Rightarrow> string" where
  "errorMessage e = (case e of Error msg \<Rightarrow> if msg \<noteq> [] then msg else ''Internal server error'')"

definition handler :: "Env \<Rightarrow> EventBody \<Rightarrow> Database \<Rightarrow> ProxyResult \<times> Database" where
  "handler env eventBody db =
     (case eventBody of
        NoBody \<Rightarrow> (\<lparr>statusCode = 400, body = Message ''Request body is required.''\<rparr>, db)
      | Unparsable msg \<Rightarrow> (\<lparr>statusCode = 500, body = Message (errorMessage (Error msg))\<rparr>, db)
      | Json requestBody \<Rightarrow>
          (case identify env requestBody db of
             (Inr result, db') \<Rightarrow> (\<lparr>statusCode = 200, body = Result result\<rparr>, db')
           | (Inl e, db') \<Rightarrow> (\<lparr>statusCode = 500, body = Message (errorMessage e)\<rparr>, db')))"

section \<open>What a request computes, on the rows\<close>

text \<open>
  The values that \<^verbatim>\<open>identify\<close> holds on a run without a failing statement, written as
  functions of the rows the transaction starts from. The lemmas of the second part
  derive each of them from the definitions above.
\<close>

text \<open>The rows that the loop of lines 45--50 pushes.\<close>

definition linkedPrimaries :: "Contact list \<Rightarrow> int list \<Rightarrow> Contact list" where
  "linkedPrimaries rows ids =
     concat (map (\<lambda>i. case findById_rows rows i of
                         None \<Rightarrow> []
                       | Some p \<Rightarrow> if linkPrecedence p = Primary then [p] else []) ids)"

text \<open>\<^verbatim>\<open>primaryContacts\<close> before line 53, and after line 55.\<close>

definition pushedPrimaries :: "Contact list \<Rightarrow> IdentifyRequest \<Rightarrow> Contact list" where
  "pushedPrimaries rows request =
     (let existingContacts = findContacts_rows rows (email_r request) (phoneNumber_r request)
      in filter (\<lambda>c. linkPrecedence c = Primary) existingContacts
         @ linkedPrimaries rows
             (linkedPrimaryIds (filter (\<lambda>c. linkPrecedence c \<noteq> Primary) existingContacts)))"

definition candidates :: "Contact list \<Rightarrow> IdentifyRequest \<Rightarrow> Contact list" where
  "candidates rows request =
     sort_key (\<lambda>c. getTime (createdAt c)) (uniqueById (pushedPrimaries rows request))"

text \<open>\<^verbatim>\<open>secondariesToRelink\<close>, and the rows after the two updates of lines 78--95.\<close>

definition relinkTargets :: "Contact list \<Rightarrow> int list \<Rightarrow> Contact list" where
  "relinkTargets rows ids = concat (map (findByLinkedId_rows rows) ids)"

definition mergedRows :: "int \<Rightarrow> Contact list \<Rightarrow> int \<Rightarrow> int list \<Rightarrow> Contact list" where
  "mergedRows t rows u demoted =
     (let rows1 = updateContacts_rows t rows demoted
                    \<lparr>linkPrecedence_u = Some Secondary, linkedId_u = Some (Some u)\<rparr>
      in updateContacts_rows t rows1 (map id_c (relinkTargets rows1 demoted))
           \<lparr>linkPrecedence_u = None, linkedId_u = Some (Some u)\<rparr>)"

text \<open>The same two updates seen from one row.\<close>

definition demotePatch :: "int \<Rightarrow> ContactPatch" where
  "demotePatch u = \<lparr>linkPrecedence_u = Some Secondary, linkedId_u = Some (Some u)\<rparr>"

definition relinkPatch :: "int \<Rightarrow> ContactPatch" where
  "relinkPatch u = \<lparr>linkPrecedence_u = None, linkedId_u = Some (Some u)\<rparr>"

definition demoteRow :: "int \<Rightarrow> int \<Rightarrow> int list \<Rightarrow> Contact \<Rightarrow> Contact" where
  "demoteRow t u ds c = (if id_c c \<in> set ds then applyPatch t (demotePatch u) c else c)"

definition relinkRow :: "int \<Rightarrow> int \<Rightarrow> int list \<Rightarrow> Contact \<Rightarrow> Contact" where
  "relinkRow t u rs c = (if id_c c \<in> set rs then applyPatch t (relinkPatch u) c else c)"

definition relinkIds :: "int \<Rightarrow> Contact list \<Rightarrow> int \<Rightarrow> int list \<Rightarrow> int list" where
  "relinkIds t rows u ds = map id_c (relinkTargets (map (demoteRow t u ds) rows) ds)"

definition mergeRow :: "int \<Rightarrow> Contact list \<Rightarrow> int \<Rightarrow> int list \<Rightarrow> Contact \<Rightarrow> Contact" where
  "mergeRow t rows u ds c = relinkRow t u (relinkIds t rows u ds) (demoteRow t u ds c)"

text \<open>The two records that \<^verbatim>\<open>createContact\<close> is called with, and the test of line 120.\<close>

definition primaryData :: "IdentifyRequest \<Rightarrow> ContactData" where
  "primaryData request =
     \<lparr>phoneNumber = orNull (phoneNumber_r request), email = orNull (email_r request),
      linkedId = None, linkPrecedence = Primary\<rparr>"

definition secondaryData :: "IdentifyRequest \<Rightarrow> int \<Rightarrow> ContactData" where
  "secondaryData request u =
     \<lparr>phoneNumber = orNull (phoneNumber_r request), email = orNull (email_r request),
      linkedId = Some u, linkPrecedence = Secondary\<rparr>"

definition secondaryNeeded :: "IdentifyRequest \<Rightarrow> Contact list \<Rightarrow> int \<Rightarrow> bool" where
  "secondaryNeeded request rows u \<longleftrightarrow>
     \<not> exactMatchFoundInGroup request (queryAllLinkedContacts_rows rows u)
     \<and> (truthy (email_r request) \<or> truthy (phoneNumber_r request))"

text \<open>The rows a successful request leaves, and the record it reports as primary.\<close>

definition finalRows :: "int \<Rightarrow> int \<Rightarrow> IdentifyRequest \<Rightarrow> Contact list \<Rightarrow> Contact list" where
  "finalRows t i request rows =
     (case candidates rows request of
        [] \<Rightarrow> rows @ [newContact i t (primaryData request)]
      | u # others \<Rightarrow>
          (let m = mergedRows t rows (id_c u) (map id_c others)
           in if secondaryNeeded request m (id_c u)
              then m @ [newContact i t (secondaryData request (id_c u))] else m))"

definition ultimatePrimaryOf :: "int \<Rightarrow> int \<Rightarrow> IdentifyRequest \<Rightarrow> Contact list \<Rightarrow> Contact" where
  "ultimatePrimaryOf t i request rows =
     (case candidates rows request of
        [] \<Rightarrow> newContact i t (primaryData request)
      | u # others \<Rightarrow> u)"

text \<open>The \<^verbatim>\<open>WHERE\<close> clause of \<^verbatim>\<open>queryAllLinkedContacts\<close> without its ordering: the live
  rows that are the record \<open>p\<close> or link to it.\<close>

definition groupOf :: "Contact list \<Rightarrow> int \<Rightarrow> Contact list" where
  "groupOf rows p = filter (\<lambda>c. (id_c c = p \<or> linkedId c = Some p) \<and> deletedAt c = None) rows"

section \<open>Properties of computations\<close>

text \<open>A computation that, started inside a transaction, stays inside it, leaves the
  committed rows alone and does not move the sequence back.\<close>

definition keepsTx :: "'a io \<Rightarrow> bool" where
  "keepsTx m \<longleftrightarrow>
     (\<forall>db r db'. m db = (r, db') \<longrightarrow> pending db \<noteq> None \<longrightarrow>
        pending db' \<noteq> None \<and> contacts db' = contacts db
        \<and> contact_id_seq db \<le> contact_id_seq db')"

text \<open>A computation that only returns when none of the statements it sent failed.\<close>

definition faultFree :: "Env \<Rightarrow> 'a io \<Rightarrow> bool" where
  "faultFree env m \<longleftrightarrow>
     (\<forall>db r db'. m db = (r, db') \<longrightarrow>
        statements db \<le> statements db' \<and>
        ((\<exists>x. r = Inr x) \<longrightarrow> (\<forall>n. statements db \<le> n \<and> n < statements db' \<longrightarrow> faults env n = None)))"

text \<open>The entries of a \<^verbatim>\<open>Map\<close> whose keys are the ids of its values.\<close>

definition keyed :: "(int \<times> Contact) list \<Rightarrow> bool" where
  "keyed m \<longleftrightarrow> (\<forall>(k, v) \<in> set m. k = id_c v)"

text \<open>The order of \<^verbatim>\<open>Array.prototype.sort()\<close> without a comparator: strings compare
  by their code units, the first difference deciding and a proper prefix coming first.\<close>

definition codeUnitLess :: "string \<Rightarrow> string \<Rightarrow> bool" where
  "codeUnitLess a b \<longleftrightarrow> (a, b) \<in> lexord {(x, y). (of_char x :: nat) < of_char y}"



section \<open>Groups and the invariants of the data model\<close>

text \<open>Flatness: the link of every live secondary names a record that is a primary.\<close>

definition flat :: "Contact list \<Rightarrow> bool" where
  "flat rows \<longleftrightarrow>
     (\<forall>s \<in> set rows. deletedAt s = None \<and> linkPrecedence s = Secondary \<longrightarrow>
        (\<exists>p \<in> set rows. linkPrecedence p = Primary \<and> linkedId s = Some (id_c p)))"

text \<open>The primary key of the table: ids are unique and below the sequence.\<close>

definition keysOk :: "Database \<Rightarrow> bool" where
  "keysOk db \<longleftrightarrow>
     distinct (map id_c (contacts db)) \<and> (\<forall>c \<in> set (contacts db). id_c c < contact_id_seq db)"

text \<open>Two records share an identifier when they hold the same email or the same phone
  number. \<open>joined\<close> relates the ids of live records that do; a connected group is a class
  of its reflexive transitive closure.\<close>

definition shareIdentifier :: "Contact \<Rightarrow> Contact \<Rightarrow> bool" where
  "shareIdentifier a b \<longleftrightarrow>
     (email a \<noteq> None \<and> email a = email b) \<or> (phoneNumber a \<noteq> None \<and> phoneNumber a = phoneNumber b)"

definition joined :: "Contact list \<Rightarrow> (int \<times> int) set" where
  "joined rows =
     {(id_c a, id_c b) | a b. a \<in> set rows \<and> b \<in> set rows \<and> deletedAt a = None
                              \<and> deletedAt b = None \<and> shareIdentifier a b}"

definition sameGroup :: "Contact list \<Rightarrow> Contact \<Rightarrow> Contact \<Rightarrow> bool" where
  "sameGroup rows a b \<longleftrightarrow> (id_c a, id_c b) \<in> (joined rows)\<^sup>*"





text \<open>A sequence of requests, each with its own environment, whatever each one returns.\<close>

fun identifyAll :: "(Env \<times> IdentifyRequest) list \<Rightarrow> Database \<Rightarrow> Database" where
  "identifyAll [] db = db"
| "identifyAll ((env, request) # rest) db = identifyAll rest (snd (identify env request db))"

section \<open>The wording of the specification\<close>

text \<open>The order of the specification, section 4.1: ascending by \<^verbatim>\<open>createdAt\<close>, ties
  broken by ascending id.\<close>

definition tieBrokenById_spec :: "Contact list \<Rightarrow> bool" where
  "tieBrokenById_spec cs \<longleftrightarrow>
     sorted_wrt (\<lambda>a b. createdAt a < createdAt b
                      \<or> (createdAt a = createdAt b \<and> id_c a \<le> id_c b)) cs"


text \<open>The test of the specification, section 4.3, read as the claim C2 reads it: each
  field is satisfied on its own, by any record of the group.\<close>

definition fieldSatisfied_spec :: "string option \<Rightarrow> (Contact \<Rightarrow> string option) \<Rightarrow> Contact list \<Rightarrow> bool" where
  "fieldSatisfied_spec v field members \<longleftrightarrow> v = None \<or> (\<exists>c \<in> set members. field c = v)"

definition pairAlreadyPresent_spec :: "IdentifyRequest \<Rightarrow> Contact list \<Rightarrow> bool" where
  "pairAlreadyPresent_spec request members \<longleftrightarrow>
     fieldSatisfied_spec (email_r request) email members
     \<and> fieldSatisfied_spec (phoneNumber_r request) phoneNumber members"

section \<open>Concrete stores and requests\<close>

text \<open>Timestamps are in microseconds: \<open>100000\<close> is a tenth of a second after the epoch.\<close>

definition emptyDb :: Database where
  "emptyDb = \<lparr>contacts = [], pending = None, contact_id_seq = 1, statements = 0\<rparr>"

definition reliable :: "int \<Rightarrow> Env" where
  "reliable t = \<lparr>faults = (\<lambda>_. None), connectFault = None, now = t\<rparr>"

definition failingAt :: "nat \<Rightarrow> int \<Rightarrow> Env" where
  "failingAt k t = \<lparr>faults = (\<lambda>n. if n = k then Some ''connection terminated'' else None),
                     connectFault = None, now = t\<rparr>"

definition req :: "string \<Rightarrow> string \<Rightarrow> IdentifyRequest" where
  "req e p = \<lparr>email_r = Some e, phoneNumber_r = Some p\<rparr>"

definition row :: "int \<Rightarrow> string \<Rightarrow> string \<Rightarrow> int option \<Rightarrow> int \<Rightarrow> Contact" where
  "row i e p l t =
     \<lparr>phoneNumber = Some p, email = Some e, linkedId = l,
      linkPrecedence = (case l of None \<Rightarrow> Primary | Some _ \<Rightarrow> Secondary),
      id_c = i, createdAt = t, updatedAt = t, deletedAt = None\<rparr>"

text \<open>The merge scenario of the specification: primary 1 is older than primary 2, and
  record 3 is a secondary of 2.\<close>

definition twoGroups :: Database where
  "twoGroups =
     \<lparr>contacts = [row 1 ''a@x.com'' ''111'' None 100000,
                  row 2 ''b@y.com'' ''222'' None 200000,
                  row 3 ''c@y.com'' ''222'' (Some 2) 300000],
      pending = None, contact_id_seq = 4, statements = 0\<rparr>"

definition mergeRun :: "(error + IdentifyResponse) \<times> Database" where
  "mergeRun = identify (reliable 400000) (req ''a@x.com'' ''222'') twoGroups"

text \<open>The same request when its seventh statement fails: the reload of the group, sent
  after the two \<^verbatim>\<open>UPDATE\<close>s have demoted record 2 and relinked record 3.\<close>

definition failedRun :: "(error + IdentifyResponse) \<times> Database" where
  "failedRun = identify (failingAt 6 400000) (req ''a@x.com'' ''222'') twoGroups"

text \<open>Two primaries created at the very same microsecond, the one with the lower id
  having a secondary; the request matches primary 2 by phone number and record 3 by
  email.\<close>

definition tiedGroups :: Database where
  "tiedGroups =
     \<lparr>contacts = [row 1 ''a@x.com'' ''111'' None 100000,
                  row 2 ''b@y.com'' ''222'' None 100000,
                  row 3 ''c@x.com'' ''111'' (Some 1) 200000],
      pending = None, contact_id_seq = 4, statements = 0\<rparr>"

definition tiedLoad :: "(error + Contact list) \<times> Database" where
  "tiedLoad = loadPrimaryContacts (reliable 300000) (req ''c@x.com'' ''222'') tiedGroups"

text \<open>The same with primary 2 created 0.8 milliseconds after primary 1.\<close>

definition closeGroups :: Database where
  "closeGroups =
     \<lparr>contacts = [row 1 ''a@x.com'' ''111'' None 100000,
                  row 2 ''b@y.com'' ''222'' None 100800,
                  row 3 ''c@x.com'' ''111'' (Some 1) 200000],
      pending = None, contact_id_seq = 4, statements = 0\<rparr>"

definition closeLoad :: "(error + Contact list) \<times> Database" where
  "closeLoad = loadPrimaryContacts (reliable 300000) (req ''c@x.com'' ''222'') closeGroups"





text \<open>The same four requests, the second one 0.8 milliseconds after the first.\<close>

definition closeOps :: "(Env \<times> IdentifyRequest) list" where
  "closeOps = [(reliable 100000, req ''a@x.com'' ''111''), (reliable 100800, req ''b@y.com'' ''222''),
               (reliable 200000, req ''c@x.com'' ''111'')]"

definition closeStore :: Database where
  "closeStore = identifyAll closeOps emptyDb"

definition closeRun :: "(error + IdentifyResponse) \<times> Database" where
  "closeRun = identify (reliable 300000) (req ''c@x.com'' ''222'') closeStore"






text \<open>The first five requests of the local test suite (\<^verbatim>\<open>runLocalTests\<close>, TC1 to TC5) from
  the empty store, one second apart, and the sixth, which the suite labels
  ``Input Already Covered''.\<close>

definition localTests :: "(Env \<times> IdentifyRequest) list" where
  "localTests =
     [(reliable 1000000, req ''test1@example.com'' ''1111111111''),
      (reliable 2000000, req ''test1@example.com'' ''2222222222''),
      (reliable 3000000, req ''test1_alt@example.com'' ''1111111111''),
      (reliable 4000000, req ''test_merge@example.com'' ''9999999999''),
      (reliable 5000000, req ''test1@example.com'' ''9999999999'')]"

definition afterTC5 :: Database where
  "afterTC5 = identifyAll localTests emptyDb"

definition runTC6 :: "(error + IdentifyResponse) \<times> Database" where
  "runTC6 = identify (reliable 6000000) (req ''test1_alt@example.com'' ''9999999999'') afterTC5"

section \<open>Runs that return\<close>

lemma resolve_Inr: "resolve x db = (Inr y, db') \<longleftrightarrow> y = x \<and> db' = db"
  by (auto simp: resolve_def)

lemma andThen_Inr:
  "andThen m f db = (Inr y, db') \<longleftrightarrow> (\<exists>x db1. m db = (Inr x, db1) \<and> f x db1 = (Inr y, db'))"
  by (auto simp: andThen_def split: prod.splits sum.splits)

lemma query_Inr:
  "query env run db = (Inr x, db') \<longleftrightarrow>
     faults env (statements db) = None \<and> run (db\<lparr>statements := Suc (statements db)\<rparr>) = (x, db')"
  by (auto simp: query_def Let_def split: option.splits prod.splits)

lemma visible_statements [simp]: "visible (db\<lparr>statements := n\<rparr>) = visible db"
  by (simp add: visible_def split: option.splits)

lemma visible_seq [simp]: "visible (db\<lparr>contact_id_seq := n\<rparr>) = visible db"
  by (simp add: visible_def split: option.splits)

lemma visible_store [simp]: "visible (store rows db) = rows"
  by (simp add: visible_def store_def split: option.splits)

lemma seq_store [simp]: "contact_id_seq (store rows db) = contact_id_seq db"
  by (simp add: store_def split: option.splits)

lemma statements_store [simp]: "statements (store rows db) = statements db"
  by (simp add: store_def split: option.splits)

lemma pushLinkedPrimaries_Inr:
  "pushLinkedPrimaries env ids acc db = (Inr ps, db') \<Longrightarrow>
     ps = acc @ linkedPrimaries (visible db) ids \<and> visible db' = visible db
     \<and> contact_id_seq db' = contact_id_seq db"
proof (induction ids arbitrary: acc db)
  case Nil
  then show ?case by (simp add: resolve_Inr linkedPrimaries_def)
next
  case (Cons i ids)
  from Cons.prems obtain prim db1 where
    f: "findById env i db = (Inr prim, db1)" and
    r: "pushLinkedPrimaries env ids
          (case prim of None \<Rightarrow> acc
           | Some p \<Rightarrow> if linkPrecedence p = Primary then acc @ [p] else acc) db1 = (Inr ps, db')"
    by (auto simp: andThen_Inr)
  from f have p: "prim = findById_rows (visible db) i" and v: "visible db1 = visible db"
    and s: "contact_id_seq db1 = contact_id_seq db"
    by (auto simp: findById_def query_Inr)
  from Cons.IH[OF r] show ?case
    by (auto simp: p v s linkedPrimaries_def split: option.splits)
qed

lemma loadPrimaryContacts_Inr:
  "loadPrimaryContacts env request db = (Inr ps, db') \<Longrightarrow>
     ps = candidates (visible db) request \<and> visible db' = visible db
     \<and> contact_id_seq db' = contact_id_seq db"
  unfolding loadPrimaryContacts_def Let_def
  by (auto simp: andThen_Inr resolve_Inr findContacts_def query_Inr candidates_def
           pushedPrimaries_def Let_def
           dest!: pushLinkedPrimaries_Inr)

lemma findAllByLinkedId_Inr:
  "findAllByLinkedId env ids db = (Inr found, db') \<Longrightarrow>
     concat found = relinkTargets (visible db) ids \<and> visible db' = visible db
     \<and> contact_id_seq db' = contact_id_seq db"
proof (induction ids arbitrary: found db)
  case Nil
  then show ?case by (simp add: resolve_Inr relinkTargets_def)
next
  case (Cons i ids)
  from Cons.prems obtain r db1 rs where
    f: "findByLinkedId env i db = (Inr r, db1)" and
    g: "findAllByLinkedId env ids db1 = (Inr rs, db')" and fr: "found = r # rs"
    by (auto simp: andThen_Inr resolve_Inr)
  from f have "r = findByLinkedId_rows (visible db) i" "visible db1 = visible db"
    "contact_id_seq db1 = contact_id_seq db"
    by (auto simp: findByLinkedId_def query_Inr)
  with Cons.IH[OF g] fr show ?case
    by (simp add: relinkTargets_def)
qed

lemma updateContacts_rows_Nil [simp]: "updateContacts_rows t rows [] d = rows"
  by (simp add: updateContacts_rows_def)

lemma updateContacts_Inr:
  "updateContacts env ids d db = (Inr x, db') \<Longrightarrow>
     linkPrecedence_u d \<noteq> None \<or> linkedId_u d \<noteq> None \<Longrightarrow>
     visible db' = updateContacts_rows (now env) (visible db) ids d
     \<and> contact_id_seq db' = contact_id_seq db"
  by (auto simp: updateContacts_def resolve_Inr query_Inr split: if_splits)

lemma relinkTargets_Nil [simp]: "relinkTargets rows [] = []"
  by (simp add: relinkTargets_def)

lemma mergePrimaries_Inr:
  assumes "mergePrimaries env u others db = (Inr x, db')"
  shows "visible db' = mergedRows (now env) (visible db) (id_c u) (map id_c others)
         \<and> contact_id_seq db' = contact_id_seq db"
proof (cases "others = []")
  case True
  with assms show ?thesis
    by (simp add: mergePrimaries_def resolve_Inr mergedRows_def)
next
  case False
  with assms obtain db1 found db2 where
    u1: "updateContacts env (map id_c others)
           \<lparr>linkPrecedence_u = Some Secondary, linkedId_u = Some (Some (id_c u))\<rparr> db = (Inr (), db1)"
    and fa: "findAllByLinkedId env (map id_c others) db1 = (Inr found, db2)"
    and u2: "(if concat found \<noteq> []
              then updateContacts env (map id_c (concat found))
                     \<lparr>linkPrecedence_u = None, linkedId_u = Some (Some (id_c u))\<rparr>
              else resolve ()) db2 = (Inr x, db')"
    by (auto simp: mergePrimaries_def Let_def andThen_Inr)
  from updateContacts_Inr[OF u1] have v1:
    "visible db1 = updateContacts_rows (now env) (visible db) (map id_c others)
                     \<lparr>linkPrecedence_u = Some Secondary, linkedId_u = Some (Some (id_c u))\<rparr>"
    and s1: "contact_id_seq db1 = contact_id_seq db" by simp_all
  from findAllByLinkedId_Inr[OF fa] have cf: "concat found = relinkTargets (visible db1) (map id_c others)"
    and v2: "visible db2 = visible db1" and s2: "contact_id_seq db2 = contact_id_seq db1" by simp_all
  show ?thesis
  proof (cases "concat found = []")
    case True
    with u2 have "db' = db2" by (simp add: resolve_Inr)
    with True cf v1 v2 s1 s2 show ?thesis by (simp add: mergedRows_def Let_def)
  next
    case False
    with u2 have "updateContacts env (map id_c (concat found))
                     \<lparr>linkPrecedence_u = None, linkedId_u = Some (Some (id_c u))\<rparr> db2 = (Inr x, db')"
      by simp
    from updateContacts_Inr[OF this] cf v1 v2 s1 s2 show ?thesis
      by (simp add: mergedRows_def Let_def)
  qed
qed

lemma createContact_Inr:
  "createContact env d db = (Inr c, db') \<Longrightarrow>
     c = newContact (contact_id_seq db) (now env) d \<and> visible db' = visible db @ [c]
     \<and> contact_id_seq db' = contact_id_seq db + 1"
  by (auto simp: createContact_def query_Inr Let_def)

lemma createSecondaryIfNew_Inr:
  "createSecondaryIfNew env request u db = (Inr x, db') \<Longrightarrow>
     visible db' =
       (if secondaryNeeded request (visible db) (id_c u)
        then visible db @ [newContact (contact_id_seq db) (now env) (secondaryData request (id_c u))]
        else visible db)
     \<and> contact_id_seq db' =
       (if secondaryNeeded request (visible db) (id_c u)
        then contact_id_seq db + 1 else contact_id_seq db)"
  unfolding createSecondaryIfNew_def
  by (auto simp: andThen_Inr resolve_Inr queryAllLinkedContacts_def query_Inr secondaryNeeded_def
        secondaryData_def split: if_splits dest!: createContact_Inr)

lemma assembleResponse_Inr:
  "assembleResponse env u db = (Inr resp, db') \<Longrightarrow>
     resp = buildResponse u (queryAllLinkedContacts_rows (visible db) (id_c u))
     \<and> visible db' = visible db \<and> contact_id_seq db' = contact_id_seq db"
  unfolding assembleResponse_def
  by (auto simp: andThen_Inr resolve_Inr queryAllLinkedContacts_def query_Inr)

lemma reconcile_Inr:
  assumes "reconcile env request db = (Inr resp, db')"
  shows "visible db' = finalRows (now env) (contact_id_seq db) request (visible db)"
    and "resp = buildResponse (ultimatePrimaryOf (now env) (contact_id_seq db) request (visible db))
                  (queryAllLinkedContacts_rows (visible db')
                     (id_c (ultimatePrimaryOf (now env) (contact_id_seq db) request (visible db))))"
    and "contact_id_seq db' =
           (if length (visible db') = length (visible db) then contact_id_seq db
            else contact_id_seq db + 1)"
proof -
  from assms obtain ps db1 where
    l: "loadPrimaryContacts env request db = (Inr ps, db1)" and
    k: "(case ps of
           [] \<Rightarrow> andThen (createContact env
                      \<lparr>phoneNumber = orNull (phoneNumber_r request),
                       email = orNull (email_r request),
                       linkedId = None, linkPrecedence = Primary\<rparr>)
                   (\<lambda>ultimatePrimary. assembleResponse env ultimatePrimary)
         | u # others \<Rightarrow>
             andThen (mergePrimaries env u others) (\<lambda>_.
             andThen (createSecondaryIfNew env request u) (\<lambda>_. assembleResponse env u))) db1
        = (Inr resp, db')"
    by (auto simp: reconcile_def andThen_Inr)
  from loadPrimaryContacts_Inr[OF l] have ps: "ps = candidates (visible db) request"
    and v1: "visible db1 = visible db" and s1: "contact_id_seq db1 = contact_id_seq db"
    by simp_all
  have "visible db' = finalRows (now env) (contact_id_seq db) request (visible db) \<and>
        resp = buildResponse (ultimatePrimaryOf (now env) (contact_id_seq db) request (visible db))
                  (queryAllLinkedContacts_rows (visible db')
                     (id_c (ultimatePrimaryOf (now env) (contact_id_seq db) request (visible db)))) \<and>
        contact_id_seq db' =
           (if length (visible db') = length (visible db) then contact_id_seq db
            else contact_id_seq db + 1)"
  proof (cases ps)
    case Nil
    with k obtain c db2 where
      c: "createContact env (primaryData request) db1 = (Inr c, db2)" and
      a: "assembleResponse env c db2 = (Inr resp, db')"
      by (auto simp: andThen_Inr primaryData_def)
    from createContact_Inr[OF c] assembleResponse_Inr[OF a] Nil ps v1 s1
    show ?thesis
      by (simp add: finalRows_def ultimatePrimaryOf_def)
  next
    case (Cons u others)
    with k obtain x db2 y db3 where
      m: "mergePrimaries env u others db1 = (Inr x, db2)" and
      c: "createSecondaryIfNew env request u db2 = (Inr y, db3)" and
      a: "assembleResponse env u db3 = (Inr resp, db')"
      by (auto simp: andThen_Inr)
    have len: "length (mergedRows (now env) (visible db) (id_c u) (map id_c others)) = length (visible db)"
      by (simp add: mergedRows_def updateContacts_rows_def Let_def)
    from mergePrimaries_Inr[OF m] createSecondaryIfNew_Inr[OF c] assembleResponse_Inr[OF a]
      Cons ps[symmetric] v1 s1 len
    show ?thesis
      by (simp add: finalRows_def ultimatePrimaryOf_def Let_def)
  qed
  then show "visible db' = finalRows (now env) (contact_id_seq db) request (visible db)"
    and "resp = buildResponse (ultimatePrimaryOf (now env) (contact_id_seq db) request (visible db))
                  (queryAllLinkedContacts_rows (visible db')
                     (id_c (ultimatePrimaryOf (now env) (contact_id_seq db) request (visible db))))"
    and "contact_id_seq db' =
           (if length (visible db') = length (visible db) then contact_id_seq db
            else contact_id_seq db + 1)"
    by simp_all
qed

section \<open>Statements inside a transaction\<close>

lemma keepsTx_resolve: "keepsTx (resolve x)"
  by (simp add: keepsTx_def resolve_def)

lemma keepsTx_andThen:
  assumes "keepsTx m" and "\<And>x. keepsTx (f x)"
  shows "keepsTx (andThen m f)"
  unfolding keepsTx_def
proof (intro allI impI)
  fix db r db'
  assume a: "andThen m f db = (r, db')" and p: "pending db \<noteq> None"
  obtain r1 db1 where m: "m db = (r1, db1)" by (cases "m db")
  from assms(1) m p have 1: "pending db1 \<noteq> None" "contacts db1 = contacts db"
    "contact_id_seq db \<le> contact_id_seq db1"
    unfolding keepsTx_def by blast+
  show "pending db' \<noteq> None \<and> contacts db' = contacts db
        \<and> contact_id_seq db \<le> contact_id_seq db'"
  proof (cases r1)
    case (Inl e)
    with a m 1 show ?thesis by (simp add: andThen_def)
  next
    case (Inr x)
    with a m have "f x db1 = (r, db')" by (simp add: andThen_def)
    with assms(2)[of x] 1(1) have "pending db' \<noteq> None" "contacts db' = contacts db1"
      "contact_id_seq db1 \<le> contact_id_seq db'"
      unfolding keepsTx_def by blast+
    with 1 show ?thesis by simp
  qed
qed

lemma keepsTx_query:
  assumes "\<And>db x db'. run db = (x, db') \<Longrightarrow> pending db \<noteq> None \<Longrightarrow>
             pending db' \<noteq> None \<and> contacts db' = contacts db
             \<and> contact_id_seq db \<le> contact_id_seq db'"
  shows "keepsTx (query env run)"
  unfolding keepsTx_def query_def Let_def
proof (intro allI impI)
  fix db r db'
  assume a: "(case faults env (statements db) of
               None \<Rightarrow> (case run (db\<lparr>statements := Suc (statements db)\<rparr>) of (x, db2) \<Rightarrow> (Inr x, db2))
             | Some msg \<Rightarrow> (Inl (Error msg), db\<lparr>statements := Suc (statements db)\<rparr>)) = (r, db')"
    and p: "pending db \<noteq> None"
  show "pending db' \<noteq> None \<and> contacts db' = contacts db
        \<and> contact_id_seq db \<le> contact_id_seq db'"
  proof (cases "faults env (statements db)")
    case None
    with a obtain x where "run (db\<lparr>statements := Suc (statements db)\<rparr>) = (x, db')"
      by (auto split: prod.splits)
    from assms[OF this] p show ?thesis by simp
  next
    case (Some msg)
    with a p show ?thesis by auto
  qed
qed

lemma store_inTx: "pending db \<noteq> None \<Longrightarrow> pending (store rows db) \<noteq> None \<and> contacts (store rows db) = contacts db"
  by (auto simp: store_def split: option.splits)

lemma keepsTx_findContacts: "keepsTx (findContacts env e p)"
  unfolding findContacts_def by (rule keepsTx_query) auto

lemma keepsTx_findById: "keepsTx (findById env i)"
  unfolding findById_def by (rule keepsTx_query) auto

lemma keepsTx_findByLinkedId: "keepsTx (findByLinkedId env i)"
  unfolding findByLinkedId_def by (rule keepsTx_query) auto

lemma keepsTx_queryAllLinkedContacts: "keepsTx (queryAllLinkedContacts env i)"
  unfolding queryAllLinkedContacts_def by (rule keepsTx_query) auto

lemma keepsTx_createContact: "keepsTx (createContact env d)"
  unfolding createContact_def
  by (rule keepsTx_query) (auto simp: Let_def store_def split: option.splits)

lemma keepsTx_updateContacts: "keepsTx (updateContacts env ids d)"
  unfolding updateContacts_def
  by (auto intro!: keepsTx_query keepsTx_resolve simp: store_def split: option.splits)

lemma keepsTx_pushLinkedPrimaries: "keepsTx (pushLinkedPrimaries env ids acc)"
  by (induction ids arbitrary: acc)
     (auto intro!: keepsTx_andThen keepsTx_resolve keepsTx_findById)

lemma keepsTx_findAllByLinkedId: "keepsTx (findAllByLinkedId env ids)"
  by (induction ids)
     (auto intro!: keepsTx_andThen keepsTx_resolve keepsTx_findByLinkedId)

lemma keepsTx_loadPrimaryContacts: "keepsTx (loadPrimaryContacts env request)"
  unfolding loadPrimaryContacts_def Let_def
  by (intro keepsTx_andThen keepsTx_resolve keepsTx_findContacts keepsTx_pushLinkedPrimaries)

lemma keepsTx_mergePrimaries: "keepsTx (mergePrimaries env u others)"
  unfolding mergePrimaries_def Let_def
  by (auto intro!: keepsTx_andThen keepsTx_resolve keepsTx_updateContacts keepsTx_findAllByLinkedId)

lemma keepsTx_createSecondaryIfNew: "keepsTx (createSecondaryIfNew env request u)"
  unfolding createSecondaryIfNew_def
  by (auto intro!: keepsTx_andThen keepsTx_resolve keepsTx_queryAllLinkedContacts keepsTx_createContact)

lemma keepsTx_assembleResponse: "keepsTx (assembleResponse env u)"
  unfolding assembleResponse_def
  by (intro keepsTx_andThen keepsTx_resolve keepsTx_queryAllLinkedContacts)

lemma keepsTx_reconcile: "keepsTx (reconcile env request)"
  unfolding reconcile_def
  by (auto intro!: keepsTx_andThen keepsTx_loadPrimaryContacts keepsTx_createContact
        keepsTx_assembleResponse keepsTx_mergePrimaries keepsTx_createSecondaryIfNew
        split: list.splits)

lemma keepsTxD:
  "keepsTx m \<Longrightarrow> m db = (r, db') \<Longrightarrow> pending db \<noteq> None \<Longrightarrow>
     pending db' \<noteq> None \<and> contacts db' = contacts db
     \<and> contact_id_seq db \<le> contact_id_seq db'"
  unfolding keepsTx_def by blast

lemma visible_None [simp]: "pending db = None \<Longrightarrow> visible db = contacts db"
  by (simp add: visible_def)

lemma begin_stmt_cases:
  "begin_stmt env db = (r, db1) \<Longrightarrow>
     (r = Inr () \<and> faults env (statements db) = None
        \<and> pending db1 \<noteq> None \<and> visible db1 = visible db \<and> contacts db1 = contacts db
        \<and> contact_id_seq db1 = contact_id_seq db)
     \<or> ((\<exists>e. r = Inl e) \<and> contacts db1 = contacts db \<and> contact_id_seq db1 = contact_id_seq db)"
  by (auto simp: begin_stmt_def query_def Let_def visible_def split: option.splits)

lemma commit_stmt_Inl:
  "commit_stmt env db = (Inl e, db') \<Longrightarrow>
     contacts db' = contacts db \<and> contact_id_seq db' = contact_id_seq db"
  by (auto simp: commit_stmt_def query_def Let_def split: option.splits)

lemma commit_stmt_Inr:
  "commit_stmt env db = (Inr x, db') \<Longrightarrow> pending db \<noteq> None \<Longrightarrow>
     contacts db' = visible db \<and> pending db' = None \<and> contact_id_seq db' = contact_id_seq db"
  by (auto simp: commit_stmt_def query_Inr visible_def split: option.splits)

lemma contacts_rollback [simp]:
  "contacts (rollback_stmt db) = contacts db"
  "contact_id_seq (rollback_stmt db) = contact_id_seq db"
  "pending (rollback_stmt db) = None"
  by (simp_all add: rollback_stmt_def)

text \<open>A transaction that fails leaves the committed rows alone; once the connection is
  there, it ends with no transaction open.\<close>

lemma transaction_Inl:
  assumes k: "keepsTx callback" and t: "transaction env callback db = (Inl e, db')"
  shows "contacts db' = contacts db \<and> contact_id_seq db \<le> contact_id_seq db'
       \<and> (pending db' = None \<or> (connectFault env \<noteq> None \<and> db' = db))"
proof (cases "connectFault env")
  case (Some msg)
  with t show ?thesis by (simp add: transaction_def)
next
  case None
  obtain r0 db0 where b: "begin_stmt env db = (r0, db0)" by (cases "begin_stmt env db")
  from begin_stmt_cases[OF b] show ?thesis
  proof
    assume "(\<exists>e. r0 = Inl e) \<and> contacts db0 = contacts db \<and> contact_id_seq db0 = contact_id_seq db"
    with t b None show ?thesis
      by (auto simp: transaction_def andThen_def)
  next
    assume ok: "r0 = Inr () \<and> faults env (statements db) = None
        \<and> pending db0 \<noteq> None \<and> visible db0 = visible db \<and> contacts db0 = contacts db
        \<and> contact_id_seq db0 = contact_id_seq db"
    then have p0: "pending db0 \<noteq> None" and c0: "contacts db0 = contacts db"
      and s0: "contact_id_seq db0 = contact_id_seq db" by simp_all
    obtain r1 db1 where c: "callback db0 = (r1, db1)" by (cases "callback db0")
    from keepsTxD[OF k c p0] c0 s0 have p1: "pending db1 \<noteq> None"
      and c1: "contacts db1 = contacts db" and s1: "contact_id_seq db \<le> contact_id_seq db1"
      by simp_all
    show ?thesis
    proof (cases r1)
      case (Inl e1)
      with t b ok c None c1 s1 show ?thesis
        by (auto simp: transaction_def andThen_def)
    next
      case (Inr x)
      obtain r2 db2 where m: "commit_stmt env db1 = (r2, db2)" by (cases "commit_stmt env db1")
      with t b ok c None Inr have "\<exists>e2. r2 = Inl e2 \<and> db' = rollback_stmt db2"
        by (cases r2) (auto simp: transaction_def andThen_def resolve_def)
      with m commit_stmt_Inl c1 s1 show ?thesis by auto
    qed
  qed
qed

lemma transaction_Inr:
  assumes k: "keepsTx callback" and t: "transaction env callback db = (Inr x, db')"
  shows "\<exists>db0 db1. pending db0 \<noteq> None \<and> visible db0 = visible db
           \<and> contact_id_seq db0 = contact_id_seq db
           \<and> callback db0 = (Inr x, db1) \<and> contacts db' = visible db1 \<and> pending db' = None
           \<and> contact_id_seq db' = contact_id_seq db1"
proof -
  from t have nf: "connectFault env = None"
    by (auto simp: transaction_def split: option.splits)
  with t obtain u db0 db1 y where
    b: "begin_stmt env db = (Inr u, db0)" and c: "callback db0 = (Inr x, db1)"
    and m: "commit_stmt env db1 = (Inr y, db')"
    by (auto simp: transaction_def andThen_Inr resolve_Inr split: prod.splits sum.splits)
  from begin_stmt_cases[OF b] have p0: "pending db0 \<noteq> None" and v0: "visible db0 = visible db"
    and s0: "contact_id_seq db0 = contact_id_seq db"
    by simp_all
  from keepsTxD[OF k c p0] have "pending db1 \<noteq> None" by simp
  from commit_stmt_Inr[OF m this] p0 v0 s0 c show ?thesis by blast
qed

text \<open>A request that fails.\<close>

lemma identify_Inl_seq:
  "identify env request db = (Inl e, db') \<Longrightarrow>
     contacts db' = contacts db \<and> contact_id_seq db \<le> contact_id_seq db'
     \<and> (pending db = None \<longrightarrow> pending db' = None)"
  by (auto simp: identify_def reject_def split: if_splits
        dest: transaction_Inl[OF keepsTx_reconcile])

lemma identify_Inl: "identify env request db = (Inl e, db') \<Longrightarrow> contacts db' = contacts db"
  by (simp add: identify_Inl_seq)

text \<open>A request that returns, in terms of the rows it starts from.\<close>

lemma identify_Inr_visible:
  assumes "identify env request db = (Inr resp, db')"
  shows "contacts db' = finalRows (now env) (contact_id_seq db) request (visible db)"
    and "resp = buildResponse (ultimatePrimaryOf (now env) (contact_id_seq db) request (visible db))
                  (queryAllLinkedContacts_rows (contacts db')
                     (id_c (ultimatePrimaryOf (now env) (contact_id_seq db) request (visible db))))"
    and "truthy (email_r request) \<or> truthy (phoneNumber_r request)"
    and "pending db' = None"
    and "contact_id_seq db' =
           (if length (contacts db') = length (visible db) then contact_id_seq db
            else contact_id_seq db + 1)"
proof -
  from assms have v: "truthy (email_r request) \<or> truthy (phoneNumber_r request)"
    and t: "transaction env (reconcile env request) db = (Inr resp, db')"
    by (auto simp: identify_def reject_def split: if_splits)
  from transaction_Inr[OF keepsTx_reconcile t] obtain db0 db1 where
    h: "pending db0 \<noteq> None" "visible db0 = visible db" "contact_id_seq db0 = contact_id_seq db"
       "reconcile env request db0 = (Inr resp, db1)" "contacts db' = visible db1" "pending db' = None"
       "contact_id_seq db' = contact_id_seq db1"
    by blast
  from reconcile_Inr[OF h(4)] h v
  show "contacts db' = finalRows (now env) (contact_id_seq db) request (visible db)"
    and "resp = buildResponse (ultimatePrimaryOf (now env) (contact_id_seq db) request (visible db))
                  (queryAllLinkedContacts_rows (contacts db')
                     (id_c (ultimatePrimaryOf (now env) (contact_id_seq db) request (visible db))))"
    and "truthy (email_r request) \<or> truthy (phoneNumber_r request)"
    and "pending db' = None"
    and "contact_id_seq db' =
           (if length (contacts db') = length (visible db) then contact_id_seq db
            else contact_id_seq db + 1)"
    by simp_all
qed

lemma identify_Inr:
  assumes "pending db = None" and "identify env request db = (Inr resp, db')"
  shows "contacts db' = finalRows (now env) (contact_id_seq db) request (contacts db)"
    and "resp = buildResponse (ultimatePrimaryOf (now env) (contact_id_seq db) request (contacts db))
                  (queryAllLinkedContacts_rows (contacts db')
                     (id_c (ultimatePrimaryOf (now env) (contact_id_seq db) request (contacts db))))"
    and "truthy (email_r request) \<or> truthy (phoneNumber_r request)"
    and "pending db' = None"
    and "contact_id_seq db' =
           (if length (contacts db') = length (contacts db) then contact_id_seq db
            else contact_id_seq db + 1)"
  using identify_Inr_visible[OF assms(2)] assms(1) by simp_all

section \<open>A request that returns met no failing statement\<close>

lemma faultFree_resolve: "faultFree env (resolve x)"
  by (auto simp: faultFree_def resolve_def)

lemma faultFree_andThen:
  assumes "faultFree env m" and "\<And>x. faultFree env (f x)"
  shows "faultFree env (andThen m f)"
  unfolding faultFree_def
proof (intro allI impI)
  fix db r db'
  assume a: "andThen m f db = (r, db')"
  obtain r1 db1 where m: "m db = (r1, db1)" by (cases "m db")
  from assms(1) m have s1: "statements db \<le> statements db1"
    and f1: "(\<exists>x. r1 = Inr x) \<longrightarrow> (\<forall>n. statements db \<le> n \<and> n < statements db1 \<longrightarrow> faults env n = None)"
    unfolding faultFree_def by blast+
  show "statements db \<le> statements db' \<and>
        ((\<exists>x. r = Inr x) \<longrightarrow> (\<forall>n. statements db \<le> n \<and> n < statements db' \<longrightarrow> faults env n = None))"
  proof (cases r1)
    case (Inl e)
    with a m s1 show ?thesis by (auto simp: andThen_def)
  next
    case (Inr x)
    with a m have fx: "f x db1 = (r, db')" by (simp add: andThen_def)
    from assms(2)[of x] fx have s2: "statements db1 \<le> statements db'"
      and f2: "(\<exists>x. r = Inr x) \<longrightarrow> (\<forall>n. statements db1 \<le> n \<and> n < statements db' \<longrightarrow> faults env n = None)"
      unfolding faultFree_def by blast+
    from s1 s2 f1 f2 Inr show ?thesis
      by (metis le_trans not_le_imp_less)
  qed
qed

lemma faultFree_query:
  assumes "\<And>db. statements (snd (run db)) = statements db"
  shows "faultFree env (query env run)"
  unfolding faultFree_def query_def Let_def
proof (intro allI impI)
  fix db r db'
  assume a: "(case faults env (statements db) of
               None \<Rightarrow> (case run (db\<lparr>statements := Suc (statements db)\<rparr>) of (x, db2) \<Rightarrow> (Inr x, db2))
             | Some msg \<Rightarrow> (Inl (Error msg), db\<lparr>statements := Suc (statements db)\<rparr>)) = (r, db')"
  show "statements db \<le> statements db' \<and>
        ((\<exists>x. r = Inr x) \<longrightarrow> (\<forall>n. statements db \<le> n \<and> n < statements db' \<longrightarrow> faults env n = None))"
  proof (cases "faults env (statements db)")
    case None
    with a have "db' = snd (run (db\<lparr>statements := Suc (statements db)\<rparr>))"
      by (auto split: prod.splits)
    with assms have "statements db' = Suc (statements db)" by simp
    with None show ?thesis by (auto simp: le_less_Suc_eq)
  next
    case (Some msg)
    with a show ?thesis by auto
  qed
qed

lemma faultFree_findContacts: "faultFree env (findContacts env e p)"
  unfolding findContacts_def by (rule faultFree_query) simp

lemma faultFree_findById: "faultFree env (findById env i)"
  unfolding findById_def by (rule faultFree_query) simp

lemma faultFree_findByLinkedId: "faultFree env (findByLinkedId env i)"
  unfolding findByLinkedId_def by (rule faultFree_query) simp

lemma faultFree_queryAllLinkedContacts: "faultFree env (queryAllLinkedContacts env i)"
  unfolding queryAllLinkedContacts_def by (rule faultFree_query) simp

lemma faultFree_createContact: "faultFree env (createContact env d)"
  unfolding createContact_def by (rule faultFree_query) (simp add: Let_def)

lemma faultFree_updateContacts: "faultFree env (updateContacts env ids d)"
  unfolding updateContacts_def
  by (auto intro!: faultFree_query faultFree_resolve)

lemma faultFree_begin: "faultFree env (begin_stmt env)"
  unfolding begin_stmt_def by (rule faultFree_query) (simp split: option.splits)

lemma faultFree_commit: "faultFree env (commit_stmt env)"
  unfolding commit_stmt_def by (rule faultFree_query) (simp split: option.splits)

lemma faultFree_pushLinkedPrimaries: "faultFree env (pushLinkedPrimaries env ids acc)"
  by (induction ids arbitrary: acc)
     (auto intro!: faultFree_andThen faultFree_resolve faultFree_findById)

lemma faultFree_findAllByLinkedId: "faultFree env (findAllByLinkedId env ids)"
  by (induction ids)
     (auto intro!: faultFree_andThen faultFree_resolve faultFree_findByLinkedId)

lemma faultFree_loadPrimaryContacts: "faultFree env (loadPrimaryContacts env request)"
  unfolding loadPrimaryContacts_def Let_def
  by (intro faultFree_andThen faultFree_resolve faultFree_findContacts faultFree_pushLinkedPrimaries)

lemma faultFree_mergePrimaries: "faultFree env (mergePrimaries env u others)"
  unfolding mergePrimaries_def Let_def
  by (auto intro!: faultFree_andThen faultFree_resolve faultFree_updateContacts
        faultFree_findAllByLinkedId)

lemma faultFree_createSecondaryIfNew: "faultFree env (createSecondaryIfNew env request u)"
  unfolding createSecondaryIfNew_def
  by (auto intro!: faultFree_andThen faultFree_resolve faultFree_queryAllLinkedContacts
        faultFree_createContact)

lemma faultFree_assembleResponse: "faultFree env (assembleResponse env u)"
  unfolding assembleResponse_def
  by (intro faultFree_andThen faultFree_resolve faultFree_queryAllLinkedContacts)

lemma faultFree_reconcile: "faultFree env (reconcile env request)"
  unfolding reconcile_def
  by (auto intro!: faultFree_andThen faultFree_loadPrimaryContacts faultFree_createContact
        faultFree_assembleResponse faultFree_mergePrimaries faultFree_createSecondaryIfNew
        split: list.splits)

lemma faultFree_transaction_body:
  "faultFree env (andThen (begin_stmt env) (\<lambda>_.
                    andThen (reconcile env request) (\<lambda>result.
                    andThen (commit_stmt env) (\<lambda>_. resolve result))))"
  by (intro faultFree_andThen faultFree_begin faultFree_reconcile faultFree_commit faultFree_resolve)

lemma identify_Inr_faultFree:
  assumes "identify env request db = (Inr resp, db')"
  shows "\<forall>n. statements db \<le> n \<and> n < statements db' \<longrightarrow> faults env n = None"
proof -
  from assms have "andThen (begin_stmt env) (\<lambda>_.
                    andThen (reconcile env request) (\<lambda>result.
                    andThen (commit_stmt env) (\<lambda>_. resolve result))) db = (Inr resp, db')"
    by (auto simp: identify_def reject_def transaction_def split: if_splits option.splits prod.splits sum.splits)
  with faultFree_transaction_body[of env request] show ?thesis
    unfolding faultFree_def by blast
qed

section \<open>The candidate list\<close>

lemma Map_set_keys:
  "map fst (Map_set m k v) = (if k \<in> fst ` set m then map fst m else map fst m @ [k])"
  by (induction m k v rule: Map_set.induct) auto

lemma Map_set_entries: "set (Map_set m k v) \<subseteq> insert (k, v) (set m)"
  by (induction m k v rule: Map_set.induct) auto

lemma Map_set_distinct: "distinct (map fst m) \<Longrightarrow> distinct (map fst (Map_set m k v))"
  by (simp add: Map_set_keys)

lemma Map_set_dom: "fst ` set (Map_set m k v) = insert k (fst ` set m)"
proof -
  have "set (map fst (Map_set m k v)) = insert k (set (map fst m))"
    unfolding Map_set_keys by auto
  then show ?thesis by simp
qed

lemma keyed_Map_set: "keyed m \<Longrightarrow> keyed (Map_set m (id_c c) c)"
  using Map_set_entries[of m "id_c c" c] unfolding keyed_def by auto

lemma foldl_Map_set:
  "distinct (map fst m) \<Longrightarrow> keyed m \<Longrightarrow>
     distinct (map fst (foldl (\<lambda>m c. Map_set m (id_c c) c) m cs))
     \<and> keyed (foldl (\<lambda>m c. Map_set m (id_c c) c) m cs)
     \<and> fst ` set (foldl (\<lambda>m c. Map_set m (id_c c) c) m cs) = fst ` set m \<union> id_c ` set cs
     \<and> snd ` set (foldl (\<lambda>m c. Map_set m (id_c c) c) m cs) \<subseteq> snd ` set m \<union> set cs"
proof (induction cs arbitrary: m)
  case Nil
  then show ?case by simp
next
  case (Cons c cs)
  let ?m = "Map_set m (id_c c) c"
  let ?r = "foldl (\<lambda>m c. Map_set m (id_c c) c) ?m cs"
  have d: "distinct (map fst ?m)" using Cons.prems(1) by (rule Map_set_distinct)
  have k: "keyed ?m" using Cons.prems(2) by (rule keyed_Map_set)
  have s: "snd ` set ?m \<subseteq> insert c (snd ` set m)"
    using Map_set_entries[of m "id_c c" c] by force
  from Cons.IH[OF d k] have 1: "distinct (map fst ?r)" and 2: "keyed ?r"
    and 3: "fst ` set ?r = fst ` set ?m \<union> id_c ` set cs"
    and 4: "snd ` set ?r \<subseteq> snd ` set ?m \<union> set cs"
    by blast+
  from 3 have e3: "fst ` set ?r = fst ` set m \<union> id_c ` set (c # cs)"
    by (simp add: Map_set_dom)
  from 4 s have e4: "snd ` set ?r \<subseteq> snd ` set m \<union> set (c # cs)"
    by auto
  from 1 2 e3 e4 show ?case by simp
qed

lemma keyed_map_fst: "keyed m \<Longrightarrow> map fst m = map (id_c \<circ> snd) m"
  unfolding keyed_def by (induction m) auto

lemma uniqueById_distinct: "distinct (map id_c (uniqueById cs))"
proof -
  have "distinct (map fst (foldl (\<lambda>m c. Map_set m (id_c c) c) [] cs))"
    and "keyed (foldl (\<lambda>m c. Map_set m (id_c c) c) [] cs)"
    using foldl_Map_set[of "[]" cs] by (simp_all add: keyed_def)
  then show ?thesis
    by (simp add: uniqueById_def keyed_map_fst)
qed

lemma uniqueById_subset: "set (uniqueById cs) \<subseteq> set cs"
  using foldl_Map_set[of "[]" cs] by (simp add: uniqueById_def keyed_def)

lemma uniqueById_ids: "id_c ` set (uniqueById cs) = id_c ` set cs"
proof -
  have k: "keyed (foldl (\<lambda>m c. Map_set m (id_c c) c) [] cs)"
    and f: "fst ` set (foldl (\<lambda>m c. Map_set m (id_c c) c) [] cs) = id_c ` set cs"
    using foldl_Map_set[of "[]" cs] by (simp_all add: keyed_def)
  have "id_c ` set (uniqueById cs) = set (map (id_c \<circ> snd) (foldl (\<lambda>m c. Map_set m (id_c c) c) [] cs))"
    by (simp add: uniqueById_def image_image)
  also have "\<dots> = set (map fst (foldl (\<lambda>m c. Map_set m (id_c c) c) [] cs))"
    using keyed_map_fst[OF k] by simp
  finally show ?thesis using f by simp
qed

lemma findById_rows_Some:
  "findById_rows rows i = Some p \<Longrightarrow> p \<in> set rows \<and> id_c p = i \<and> deletedAt p = None"
  by (auto simp: findById_rows_def find_Some_iff)

lemma linkedPrimaries_set:
  "set (linkedPrimaries rows ids) =
     {p. \<exists>i \<in> set ids. findById_rows rows i = Some p \<and> linkPrecedence p = Primary}"
  by (auto simp: linkedPrimaries_def split: option.splits if_splits)

lemma linkedPrimaries_subset:
  "p \<in> set (linkedPrimaries rows ids) \<Longrightarrow>
     p \<in> set rows \<and> deletedAt p = None \<and> linkPrecedence p = Primary \<and> id_c p \<in> set ids"
  by (auto simp: linkedPrimaries_set dest: findById_rows_Some)

lemma findContacts_rows_set:
  "set (findContacts_rows rows e p) =
     {c \<in> set rows. ((truthy e \<and> email c = e) \<or> (truthy p \<and> phoneNumber c = p))
                     \<and> deletedAt c = None}"
  by (auto simp: findContacts_rows_def)

lemma Set_add_set: "set (Set_add s x) = insert x (set s)"
  by (auto simp: Set_add_def)

lemma linkedPrimaryIds_set_gen:
  "set (foldl (\<lambda>s c. case linkedId c of None \<Rightarrow> s | Some l \<Rightarrow> Set_add s l) s0 cs)
     = set s0 \<union> {l. \<exists>c \<in> set cs. linkedId c = Some l}"
  by (induction cs arbitrary: s0) (auto simp: Set_add_set split: option.splits)

lemma linkedPrimaryIds_set:
  "set (linkedPrimaryIds cs) = {l. \<exists>c \<in> set cs. linkedId c = Some l}"
  by (simp add: linkedPrimaryIds_def linkedPrimaryIds_set_gen)

lemma candidates_pushed:
  "candidates rows request =
     sort_key (\<lambda>c. getTime (createdAt c)) (uniqueById (pushedPrimaries rows request))"
  by (simp add: candidates_def)

lemma pushedPrimaries_subset:
  "c \<in> set (pushedPrimaries rows request) \<Longrightarrow>
     c \<in> set rows \<and> deletedAt c = None \<and> linkPrecedence c = Primary"
  by (auto simp: pushedPrimaries_def Let_def findContacts_rows_set dest: linkedPrimaries_subset)

lemma candidates_subset:
  "c \<in> set (candidates rows request) \<Longrightarrow>
     c \<in> set rows \<and> deletedAt c = None \<and> linkPrecedence c = Primary"
  using uniqueById_subset[of "pushedPrimaries rows request"] pushedPrimaries_subset[of c rows request]
  by (auto simp: candidates_pushed)

lemma candidates_distinct: "distinct (map id_c (candidates rows request))"
proof -
  have "distinct (map id_c (uniqueById (pushedPrimaries rows request)))"
    by (rule uniqueById_distinct)
  then have "distinct (uniqueById (pushedPrimaries rows request))"
    and "inj_on id_c (set (uniqueById (pushedPrimaries rows request)))"
    by (simp_all add: distinct_map)
  then show ?thesis
    by (simp add: candidates_pushed distinct_map)
qed

lemma candidates_sorted:
  "sorted (map (\<lambda>c. getTime (createdAt c)) (candidates rows request))"
  by (simp add: candidates_pushed)

lemma candidates_ids:
  "id_c ` set (candidates rows request) = id_c ` set (pushedPrimaries rows request)"
  by (simp add: candidates_pushed uniqueById_ids)

section \<open>The merge, row by row\<close>

lemma applyPatch_fixed [simp]:
  "id_c (applyPatch t d c) = id_c c"
  "email (applyPatch t d c) = email c"
  "phoneNumber (applyPatch t d c) = phoneNumber c"
  "createdAt (applyPatch t d c) = createdAt c"
  "deletedAt (applyPatch t d c) = deletedAt c"
  by (simp_all add: applyPatch_def Let_def split: option.splits)

lemma applyPatch_demote [simp]:
  "linkPrecedence (applyPatch t (demotePatch u) c) = Secondary"
  "linkedId (applyPatch t (demotePatch u) c) = Some u"
  by (simp_all add: applyPatch_def demotePatch_def)

lemma applyPatch_relink [simp]:
  "linkPrecedence (applyPatch t (relinkPatch u) c) = linkPrecedence c"
  "linkedId (applyPatch t (relinkPatch u) c) = Some u"
  by (simp_all add: applyPatch_def relinkPatch_def)

lemma updateContacts_rows_demote:
  "updateContacts_rows t rows ds \<lparr>linkPrecedence_u = Some Secondary, linkedId_u = Some (Some u)\<rparr>
     = map (demoteRow t u ds) rows"
  unfolding updateContacts_rows_def demoteRow_def demotePatch_def by (rule refl)

lemma updateContacts_rows_relink:
  "updateContacts_rows t rows rs \<lparr>linkPrecedence_u = None, linkedId_u = Some (Some u)\<rparr>
     = map (relinkRow t u rs) rows"
  unfolding updateContacts_rows_def relinkRow_def relinkPatch_def by (rule refl)

lemma mergedRows_map: "mergedRows t rows u ds = map (mergeRow t rows u ds) rows"
  unfolding mergedRows_def Let_def updateContacts_rows_demote updateContacts_rows_relink
  by (simp add: relinkIds_def mergeRow_def)

lemma mergeRow_fixed [simp]:
  "id_c (mergeRow t rows u ds c) = id_c c"
  "email (mergeRow t rows u ds c) = email c"
  "phoneNumber (mergeRow t rows u ds c) = phoneNumber c"
  "createdAt (mergeRow t rows u ds c) = createdAt c"
  "deletedAt (mergeRow t rows u ds c) = deletedAt c"
  by (simp_all add: mergeRow_def relinkRow_def demoteRow_def)

lemma mergeRow_linkPrecedence:
  "linkPrecedence (mergeRow t rows u ds c) =
     (if id_c c \<in> set ds then Secondary else linkPrecedence c)"
  by (simp add: mergeRow_def relinkRow_def demoteRow_def)

lemma mergeRow_linkedId:
  "linkedId (mergeRow t rows u ds c) =
     (if id_c c \<in> set ds \<or> id_c c \<in> set (relinkIds t rows u ds) then Some u else linkedId c)"
  by (simp add: mergeRow_def relinkRow_def demoteRow_def)

lemma demoteRow_fixed [simp]:
  "id_c (demoteRow t u ds c) = id_c c"
  "deletedAt (demoteRow t u ds c) = deletedAt c"
  by (simp_all add: demoteRow_def)

lemma demoteRow_linkedId:
  "linkedId (demoteRow t u ds c) = (if id_c c \<in> set ds then Some u else linkedId c)"
  by (simp add: demoteRow_def)

lemma relinkTargets_set:
  "set (relinkTargets rows ds) =
     {c \<in> set rows. deletedAt c = None \<and> (\<exists>d \<in> set ds. linkedId c = Some d)}"
  by (auto simp: relinkTargets_def findByLinkedId_rows_def)

lemma relinkIds_set:
  "set (relinkIds t rows u ds) =
     {id_c c | c. c \<in> set rows \<and> deletedAt c = None
                  \<and> (if id_c c \<in> set ds then u \<in> set ds
                      else \<exists>d \<in> set ds. linkedId c = Some d)}"
proof -
  have "set (relinkIds t rows u ds) =
          id_c ` {c' \<in> demoteRow t u ds ` set rows. deletedAt c' = None
                      \<and> (\<exists>d \<in> set ds. linkedId c' = Some d)}"
    by (simp add: relinkIds_def relinkTargets_set)
  also have "\<dots> = {id_c c | c. c \<in> set rows \<and> deletedAt c = None
                  \<and> (\<exists>d \<in> set ds. linkedId (demoteRow t u ds c) = Some d)}"
    by (rule set_eqI) (simp add: image_iff, metis demoteRow_fixed)
  also have "\<dots> = {id_c c | c. c \<in> set rows \<and> deletedAt c = None
                  \<and> (if id_c c \<in> set ds then u \<in> set ds
                      else \<exists>d \<in> set ds. linkedId c = Some d)}"
  proof -
    have "\<And>c. (\<exists>d \<in> set ds. linkedId (demoteRow t u ds c) = Some d) \<longleftrightarrow>
               (if id_c c \<in> set ds then u \<in> set ds else \<exists>d \<in> set ds. linkedId c = Some d)"
      by (simp add: demoteRow_linkedId)
    then show ?thesis by simp
  qed
  finally show ?thesis .
qed

lemma queryAllLinkedContacts_rows_set:
  "set (queryAllLinkedContacts_rows rows p) = set (groupOf rows p)"
  by (simp add: queryAllLinkedContacts_rows_def groupOf_def)

lemma queryAllLinkedContacts_rows_mset:
  "mset (queryAllLinkedContacts_rows rows p) = mset (groupOf rows p)"
  by (simp add: queryAllLinkedContacts_rows_def groupOf_def)

lemma collect_gen:
  "distinct s0 \<Longrightarrow>
     distinct (foldl (\<lambda>s c. if truthy (field c) then Set_add s (the (field c)) else s) s0 cs)
     \<and> set (foldl (\<lambda>s c. if truthy (field c) then Set_add s (the (field c)) else s) s0 cs)
         = set s0 \<union> {v. v \<noteq> [] \<and> (\<exists>c \<in> set cs. field c = Some v)}"
proof (induction cs arbitrary: s0)
  case Nil
  then show ?case by simp
next
  case (Cons c cs)
  let ?s1 = "if truthy (field c) then Set_add s0 (the (field c)) else s0"
  have d: "distinct ?s1" using Cons.prems by (simp add: Set_add_def)
  have s: "set ?s1 = set s0 \<union> {v. v \<noteq> [] \<and> field c = Some v}"
    by (auto simp: Set_add_set truthy_def split: option.splits)
  from Cons.IH[OF d] s show ?case by auto
qed

lemma collect_distinct: "distinct (collect field cs)"
  using collect_gen[of "[]" field cs] by (simp add: collect_def)

lemma collect_set: "set (collect field cs) = {v. v \<noteq> [] \<and> (\<exists>c \<in> set cs. field c = Some v)}"
  using collect_gen[of "[]" field cs] by (simp add: collect_def)

lemma sort_cong_mset: "mset xs = mset ys \<Longrightarrow> sort xs = sort ys"
  by (metis mset_sort properties_for_sort sorted_sort)

lemma secondaryIds_sort:
  "sort (map id_c (filter P (queryAllLinkedContacts_rows rows p)))
     = sort (map id_c (filter P (groupOf rows p)))"
  by (rule sort_cong_mset) (simp add: queryAllLinkedContacts_rows_mset)

lemma ultimatePrimary_in_finalRows:
  "\<exists>u \<in> set (finalRows t i request rows).
      id_c u = id_c (ultimatePrimaryOf t i request rows)
      \<and> deletedAt u = None \<and> linkPrecedence u = Primary"
proof (cases "candidates rows request")
  case Nil
  then show ?thesis
    by (simp add: finalRows_def ultimatePrimaryOf_def newContact_def primaryData_def)
next
  case (Cons u others)
  have "u \<in> set (candidates rows request)" using Cons by simp
  from candidates_subset[OF this] have u: "u \<in> set rows" "deletedAt u = None" "linkPrecedence u = Primary"
    by simp_all
  from candidates_distinct[of rows request] Cons have nd: "id_c u \<notin> set (map id_c others)"
    by simp
  let ?u = "mergeRow t rows (id_c u) (map id_c others) u"
  have "?u \<in> set (mergedRows t rows (id_c u) (map id_c others))"
    using u(1) by (simp add: mergedRows_map)
  moreover have "set (mergedRows t rows (id_c u) (map id_c others)) \<subseteq> set (finalRows t i request rows)"
    using Cons by (auto simp: finalRows_def Let_def)
  ultimately have m: "?u \<in> set (finalRows t i request rows)" by blast
  have up: "ultimatePrimaryOf t i request rows = u"
    using Cons by (simp add: ultimatePrimaryOf_def)
  have "id_c ?u = id_c (ultimatePrimaryOf t i request rows)
        \<and> deletedAt ?u = None \<and> linkPrecedence ?u = Primary"
    using u nd by (simp add: mergeRow_linkPrecedence up)
  then show ?thesis using m by (rule bexI)
qed


lemma sort_codeUnitLess:
  "distinct xs \<Longrightarrow> sorted_wrt codeUnitLess (sort xs)"
proof -
  assume "distinct xs"
  then have "sorted_wrt (<) (sort xs)"
    by (simp add: strict_sorted_iff)
  moreover have "(<) = codeUnitLess"
    by (intro ext) (simp add: codeUnitLess_def list_less_def less_char_def)
  ultimately show ?thesis by simp
qed














lemma findById_rows_None:
  "findById_rows rows i = None \<longleftrightarrow> (\<forall>c \<in> set rows. \<not> (id_c c = i \<and> deletedAt c = None))"
  by (auto simp: findById_rows_def find_None_iff)

lemma pushedPrimaries_ids:
  "id_c ` set (pushedPrimaries rows request) =
     {id_c c | c. c \<in> set (findContacts_rows rows (email_r request) (phoneNumber_r request))
                  \<and> linkPrecedence c = Primary}
     \<union> {l. \<exists>s p. s \<in> set (findContacts_rows rows (email_r request) (phoneNumber_r request))
               \<and> linkPrecedence s = Secondary \<and> linkedId s = Some l
               \<and> findById_rows rows l = Some p \<and> linkPrecedence p = Primary}"
proof -
  have neq: "\<And>c. (linkPrecedence c \<noteq> Primary) = (linkPrecedence c = Secondary)"
    by (metis LinkPrecedence.exhaust LinkPrecedence.distinct(1))
  have "id_c ` set (linkedPrimaries rows ids) =
          {l. l \<in> set ids \<and> (\<exists>p. findById_rows rows l = Some p \<and> linkPrecedence p = Primary)}" for ids
    by (auto simp: linkedPrimaries_set image_iff dest: findById_rows_Some)
  then show ?thesis
    unfolding pushedPrimaries_def Let_def
    by (auto simp: linkedPrimaryIds_set neq image_Un)
qed


lemma newContact_fields [simp]:
  "id_c (newContact i t d) = i"
  "createdAt (newContact i t d) = t"
  "deletedAt (newContact i t d) = None"
  "email (newContact i t d) = email d"
  "phoneNumber (newContact i t d) = phoneNumber d"
  "linkedId (newContact i t d) = linkedId d"
  "linkPrecedence (newContact i t d) = linkPrecedence d"
  by (simp_all add: newContact_def)

lemma primaryData_fields [simp]:
  "email (primaryData request) = orNull (email_r request)"
  "phoneNumber (primaryData request) = orNull (phoneNumber_r request)"
  "linkedId (primaryData request) = None"
  "linkPrecedence (primaryData request) = Primary"
  by (simp_all add: primaryData_def)

lemma secondaryData_fields [simp]:
  "email (secondaryData request u) = orNull (email_r request)"
  "phoneNumber (secondaryData request u) = orNull (phoneNumber_r request)"
  "linkedId (secondaryData request u) = Some u"
  "linkPrecedence (secondaryData request u) = Secondary"
  by (simp_all add: secondaryData_def)

lemma finalRows_Nil:
  "candidates rows request = [] \<Longrightarrow>
     finalRows t i request rows = rows @ [newContact i t (primaryData request)]"
  by (simp add: finalRows_def)

lemma finalRows_Cons:
  "candidates rows request = u # others \<Longrightarrow>
     finalRows t i request rows =
       map (mergeRow t rows (id_c u) (map id_c others)) rows
       @ (if secondaryNeeded request (mergedRows t rows (id_c u) (map id_c others)) (id_c u)
          then [newContact i t (secondaryData request (id_c u))] else [])"
  by (simp add: finalRows_def Let_def mergedRows_map)

lemma candidates_head:
  assumes "candidates rows request = u # others"
  shows "u \<in> set rows" "deletedAt u = None" "linkPrecedence u = Primary"
    "id_c u \<notin> set (map id_c others)"
proof -
  have "u \<in> set (candidates rows request)" using assms by simp
  from candidates_subset[OF this]
  show "u \<in> set rows" "deletedAt u = None" "linkPrecedence u = Primary" by simp_all
  from candidates_distinct[of rows request] assms
  show "id_c u \<notin> set (map id_c others)" by simp
qed

lemma relinkIds_member:
  "c \<in> set rows \<Longrightarrow> deletedAt c = None \<Longrightarrow> id_c c \<notin> set ds \<Longrightarrow> linkedId c = Some d \<Longrightarrow>
     d \<in> set ds \<Longrightarrow> id_c c \<in> set (relinkIds t rows u ds)"
  unfolding relinkIds_set by auto

lemma links_finalRows:
  assumes ok_merge: "\<And>c u ds. ok (mergeRow t rows u ds c) = ok c"
    and ok_live: "\<And>c. deletedAt c = None \<Longrightarrow> linkPrecedence c = Primary \<Longrightarrow> ok c"
    and pre: "\<forall>s \<in> set rows. deletedAt s = None \<and> linkPrecedence s = Secondary \<longrightarrow>
                (\<exists>p \<in> set rows. ok p \<and> linkPrecedence p = Primary \<and> linkedId s = Some (id_c p))"
  shows "\<forall>s \<in> set (finalRows t i request rows). deletedAt s = None \<and> linkPrecedence s = Secondary \<longrightarrow>
           (\<exists>p \<in> set (finalRows t i request rows).
               ok p \<and> linkPrecedence p = Primary \<and> linkedId s = Some (id_c p))"
proof (cases "candidates rows request")
  case Nil
  show ?thesis
  proof (intro ballI impI)
    fix s assume s: "s \<in> set (finalRows t i request rows)"
      and l: "deletedAt s = None \<and> linkPrecedence s = Secondary"
    from s l Nil have "s \<in> set rows" by (auto simp: finalRows_Nil)
    with pre l obtain p where "p \<in> set rows" "ok p \<and> linkPrecedence p = Primary \<and> linkedId s = Some (id_c p)"
      by blast
    then show "\<exists>p \<in> set (finalRows t i request rows).
               ok p \<and> linkPrecedence p = Primary \<and> linkedId s = Some (id_c p)"
      using Nil by (auto simp: finalRows_Nil)
  qed
next
  case (Cons u others)
  let ?ds = "map id_c others"
  let ?m = "mergeRow t rows (id_c u) ?ds"
  note h = candidates_head[OF Cons]
  have sub: "?m ` set rows \<subseteq> set (finalRows t i request rows)"
    by (auto simp: finalRows_Cons[OF Cons])
  have U: "?m u \<in> set (finalRows t i request rows)"
    "ok (?m u) \<and> linkPrecedence (?m u) = Primary \<and> id_c (?m u) = id_c u"
    using h sub ok_live[of u] by (auto simp: ok_merge mergeRow_linkPrecedence)
  show ?thesis
  proof (intro ballI impI)
    fix s' assume s': "s' \<in> set (finalRows t i request rows)"
      and l: "deletedAt s' = None \<and> linkPrecedence s' = Secondary"
    show "\<exists>p \<in> set (finalRows t i request rows).
               ok p \<and> linkPrecedence p = Primary \<and> linkedId s' = Some (id_c p)"
    proof (cases "linkedId s' = Some (id_c u)")
      case True
      with U show ?thesis by metis
    next
      case False
      with s' have "s' \<in> ?m ` set rows"
        by (auto simp: finalRows_Cons[OF Cons] split: if_splits)
      then obtain s where s: "s \<in> set rows" "s' = ?m s" by blast
      from False s have nd: "id_c s \<notin> set ?ds" and nr: "id_c s \<notin> set (relinkIds t rows (id_c u) ?ds)"
        by (auto simp: mergeRow_linkedId split: if_splits)
      with s l have sec: "deletedAt s = None \<and> linkPrecedence s = Secondary"
        and same: "linkedId s' = linkedId s"
        by (auto simp: mergeRow_linkPrecedence mergeRow_linkedId)
      with pre s obtain p where p: "p \<in> set rows" "ok p" "linkPrecedence p = Primary"
        "linkedId s = Some (id_c p)" by blast
      have "id_c p \<notin> set ?ds"
        using relinkIds_member[OF s(1) _ nd p(4)] sec nr by blast
      with p have "ok (?m p) \<and> linkPrecedence (?m p) = Primary \<and> linkedId s' = Some (id_c (?m p))"
        by (simp add: ok_merge mergeRow_linkPrecedence same)
      moreover have "?m p \<in> set (finalRows t i request rows)"
        using p(1) sub by blast
      ultimately show ?thesis by blast
    qed
  qed
qed

lemma flat_finalRows: "flat rows \<Longrightarrow> flat (finalRows t i request rows)"
  unfolding flat_def
  using links_finalRows[where ok = "\<lambda>_. True" and rows = rows and t = t and i = i and request = request]
  by simp

lemma secondary_neq [simp]: "(linkPrecedence c \<noteq> Primary) = (linkPrecedence c = Secondary)"
  by (cases "linkPrecedence c") simp_all


lemma same_id_same_row:
  "distinct (map id_c rows) \<Longrightarrow> a \<in> set rows \<Longrightarrow> b \<in> set rows \<Longrightarrow> id_c a = id_c b \<Longrightarrow> a = b"
  by (meson distinct_map inj_onD)

section \<open>Groups and the invariants of the data model\<close>







lemma sameGroup_refl [simp]: "sameGroup rows a a"
  by (simp add: sameGroup_def)




















lemma ids_finalRows:
  "map id_c (finalRows t i request rows) = map id_c rows
   \<or> map id_c (finalRows t i request rows) = map id_c rows @ [i]"
proof (cases "candidates rows request")
  case Nil
  then show ?thesis by (simp add: finalRows_Nil)
next
  case (Cons u others)
  then show ?thesis
    by (simp add: finalRows_Cons[OF Cons] comp_def)
qed


lemma distinct_finalRows:
  assumes "distinct (map id_c rows)" "\<forall>x \<in> set rows. id_c x < i"
  shows "distinct (map id_c (finalRows t i request rows))"
proof -
  from assms(2) have "i \<notin> set (map id_c rows)" by auto
  with assms(1) ids_finalRows[of t i request rows] show ?thesis by auto
qed






lemma fresh_finalRows:
  assumes "\<forall>c \<in> set rows. id_c c < i"
  shows "\<forall>c \<in> set (finalRows t i request rows).
           id_c c < (if length (finalRows t i request rows) = length rows then i else i + 1)"
proof -
  have "set (map id_c (finalRows t i request rows)) \<subseteq> insert i (set (map id_c rows))"
    and "length (finalRows t i request rows) = length rows
          \<Longrightarrow> set (map id_c (finalRows t i request rows)) = set (map id_c rows)"
    using ids_finalRows[of t i request rows]
    by (auto simp del: set_map dest: arg_cong[where f = length])
  with assms show ?thesis by (auto simp: image_subset_iff) force+
qed

lemma mergedRows_Nil [simp]: "mergedRows t rows u [] = rows"
  by (simp add: mergedRows_def)

lemma identify_keysOk:
  assumes k: "keysOk db" and p: "pending db = None" and run: "identify env request db = (res, db')"
  shows "keysOk db'"
proof (cases res)
  case (Inl e)
  with run have "contacts db' = contacts db \<and> contact_id_seq db \<le> contact_id_seq db'"
    by (simp add: identify_Inl_seq)
  with k show ?thesis unfolding keysOk_def by force
next
  case (Inr resp)
  with run have r: "identify env request db = (Inr resp, db')" by simp
  from k have k1: "distinct (map id_c (contacts db))"
    and k2: "\<forall>c \<in> set (contacts db). id_c c < contact_id_seq db"
    by (simp_all add: keysOk_def)
  note rows = identify_Inr(1)[OF p r] and seq = identify_Inr(5)[OF p r]
  have "distinct (map id_c (contacts db'))"
    unfolding rows using k1 k2 by (rule distinct_finalRows)
  moreover have "\<forall>c \<in> set (contacts db'). id_c c < contact_id_seq db'"
    using fresh_finalRows[OF k2, of "now env" request] unfolding seq rows by simp
  ultimately show ?thesis by (simp add: keysOk_def)
qed

lemma identify_pending:
  assumes "pending db = None" and "identify env request db = (res, db')"
  shows "pending db' = None"
proof (cases res)
  case (Inl e)
  with assms show ?thesis by (simp add: identify_Inl_seq)
next
  case (Inr resp)
  with assms show ?thesis by (simp add: identify_Inr_visible(4))
qed

section \<open>A sequence of requests keeps the invariants\<close>








section \<open>The concrete runs\<close>


















section \<open>The claims\<close>

text \<open>
  Claim C6 (atomicity). A request starts on a connection with no transaction open.
  Whenever a statement that \<^verbatim>\<open>identify\<close> sends fails, \<^verbatim>\<open>identify\<close> ends with an error; and
  whenever \<^verbatim>\<open>identify\<close> ends with an error, the committed rows of the table are the rows
  from before the request and the transaction is over, so that the rows any later
  statement sees are those rows too: nothing the failed request created, demoted or
  relinked stays.
\<close>

theorem identify_atomic:
  assumes "pending db = None" and "identify env request db = (res, db')"
  shows "((\<exists>n. statements db \<le> n \<and> n < statements db' \<and> faults env n \<noteq> None)
            \<longrightarrow> (\<exists>e. res = Inl e))
         \<and> ((\<exists>e. res = Inl e)
            \<longrightarrow> contacts db' = contacts db \<and> pending db' = None \<and> visible db' = visible db)"
proof (cases res)
  case (Inl e)
  with assms have "identify env request db = (Inl e, db')" by simp
  from identify_Inl_seq[OF this] assms(1) Inl show ?thesis by simp
next
  case (Inr resp)
  with assms have "identify env request db = (Inr resp, db')" by simp
  from identify_Inr_faultFree[OF this] Inr show ?thesis by auto
qed

theorem identify_atomic_witness:
  "pending twoGroups = None
   \<and> fst failedRun = Inl (Error ''connection terminated'')
   \<and> faults (failingAt 6 400000) 6 \<noteq> None
   \<and> statements twoGroups \<le> 6 \<and> 6 < statements (snd failedRun)
   \<and> contacts (snd failedRun) = contacts twoGroups
   \<and> pending (snd failedRun) = None
   \<and> visible (snd failedRun) = visible twoGroups"
proof -
  have p: "pending twoGroups = None" by (simp add: twoGroups_def)
  have r: "fst failedRun = Inl (Error ''connection terminated'')"
    unfolding failedRun_def by code_simp
  have s: "statements (snd failedRun) = 8"
    unfolding failedRun_def by code_simp
  have "identify (failingAt 6 400000) (req ''a@x.com'' ''222'') twoGroups
          = (Inl (Error ''connection terminated''), snd failedRun)"
    using r by (simp add: failedRun_def prod_eq_iff)
  from identify_atomic[OF p this] have
    "contacts (snd failedRun) = contacts twoGroups \<and> pending (snd failedRun) = None
     \<and> visible (snd failedRun) = visible twoGroups"
    by blast
  moreover have "faults (failingAt 6 400000) 6 \<noteq> None \<and> statements twoGroups \<le> 6"
    by (simp add: failingAt_def twoGroups_def)
  ultimately show ?thesis using p r s by simp
qed

text \<open>
  Claim C8, at the request body \<^verbatim>\<open>{}\<close>. A request with neither field fails with the
  validation error and the store is not touched (no statement is counted, no transaction
  opened), but the handler answers it with status 500, a server error, where the claim
  says a client error.
\<close>

theorem handler_empty_request:
  "handler env (Json \<lparr>email_r = None, phoneNumber_r = None\<rparr>) db
     = (\<lparr>statusCode = 500, body = Message validationMessage\<rparr>, db)"
  by (simp add: handler_def identify_def reject_def truthy_def errorMessage_def validationMessage_def)

text \<open>
  Claim C9. In the response of a request that returns, \<^verbatim>\<open>primaryContactId\<close> is the id of
  the surviving primary of the request: the first of the candidates found in the rows the
  request starts from or, when there is none, the primary the request creates. The
  group being the live rows of the resulting table that are this primary or link to it,
  \<^verbatim>\<open>emails\<close> and \<^verbatim>\<open>phoneNumbers\<close> hold every value of the group once (a value is absent
  when it is \<^verbatim>\<open>null\<close> or the empty string, as in \<^verbatim>\<open>email || null\<close>);
  \<^verbatim>\<open>secondaryContactIds\<close> is the ascending list of the ids of the group's secondaries; and
  the primary is a live primary row of the group.
\<close>

theorem response_describes_group:
  assumes "identify env request db = (Inr resp, db')"
  shows "primaryContactId (contact resp)
           = id_c (ultimatePrimaryOf (now env) (contact_id_seq db) request (visible db))
       \<and> distinct (emails (contact resp))
       \<and> set (emails (contact resp))
           = {v. v \<noteq> [] \<and> (\<exists>c \<in> set (groupOf (contacts db') (primaryContactId (contact resp))).
                                email c = Some v)}
       \<and> distinct (phoneNumbers (contact resp))
       \<and> set (phoneNumbers (contact resp))
           = {v. v \<noteq> [] \<and> (\<exists>c \<in> set (groupOf (contacts db') (primaryContactId (contact resp))).
                                phoneNumber c = Some v)}
       \<and> secondaryContactIds (contact resp)
           = sort (map id_c (filter (\<lambda>c. linkPrecedence c = Secondary
                                         \<and> linkedId c = Some (primaryContactId (contact resp)))
                               (groupOf (contacts db') (primaryContactId (contact resp)))))
       \<and> (\<exists>u \<in> set (groupOf (contacts db') (primaryContactId (contact resp))).
             id_c u = primaryContactId (contact resp) \<and> linkPrecedence u = Primary)"
proof -
  let ?u = "ultimatePrimaryOf (now env) (contact_id_seq db) request (visible db)"
  from identify_Inr_visible[OF assms] have
    rows: "contacts db' = finalRows (now env) (contact_id_seq db) request (visible db)" and
    resp: "resp = buildResponse ?u (queryAllLinkedContacts_rows (contacts db') (id_c ?u))"
    by simp_all
  have pid: "primaryContactId (contact resp) = id_c ?u"
    by (simp add: resp buildResponse_def)
  have 1: "distinct (emails (contact resp))" "distinct (phoneNumbers (contact resp))"
    by (simp_all add: resp buildResponse_def collect_distinct)
  have 2: "set (emails (contact resp))
           = {v. v \<noteq> [] \<and> (\<exists>c \<in> set (groupOf (contacts db') (id_c ?u)). email c = Some v)}"
    by (simp add: resp buildResponse_def collect_set queryAllLinkedContacts_rows_set)
  have 3: "set (phoneNumbers (contact resp))
           = {v. v \<noteq> [] \<and> (\<exists>c \<in> set (groupOf (contacts db') (id_c ?u)). phoneNumber c = Some v)}"
    by (simp add: resp buildResponse_def collect_set queryAllLinkedContacts_rows_set)
  have 4: "secondaryContactIds (contact resp)
           = sort (map id_c (filter (\<lambda>c. linkPrecedence c = Secondary \<and> linkedId c = Some (id_c ?u))
                               (groupOf (contacts db') (id_c ?u))))"
    by (simp add: resp buildResponse_def secondaryIds_sort)
  from ultimatePrimary_in_finalRows[of "now env" "contact_id_seq db" request "visible db"]
  have 5: "\<exists>u \<in> set (groupOf (contacts db') (id_c ?u)). id_c u = id_c ?u \<and> linkPrecedence u = Primary"
    by (auto simp: rows groupOf_def)
  from 1 2 3 4 5 show ?thesis unfolding pid by blast
qed

theorem response_describes_group_witness:
  "fst mergeRun = Inr \<lparr>contact = \<lparr>primaryContactId = 1,
        emails = [''a@x.com'', ''b@y.com'', ''c@y.com''], phoneNumbers = [''111'', ''222''],
        secondaryContactIds = [2, 3, 4]\<rparr>\<rparr>
   \<and> candidates (visible twoGroups) (req ''a@x.com'' ''222'')
       = [row 1 ''a@x.com'' ''111'' None 100000, row 2 ''b@y.com'' ''222'' None 200000]
   \<and> id_c (ultimatePrimaryOf (now (reliable 400000)) (contact_id_seq twoGroups)
             (req ''a@x.com'' ''222'') (visible twoGroups)) = 1
   \<and> [2, 3, 4] = sort (map id_c (filter (\<lambda>c. linkPrecedence c = Secondary \<and> linkedId c = Some 1)
                                     (groupOf (contacts (snd mergeRun)) 1)))
   \<and> set [''111'', ''222'']
       = {v. v \<noteq> [] \<and> (\<exists>c \<in> set (groupOf (contacts (snd mergeRun)) 1). phoneNumber c = Some v)}"
proof -
  have r: "fst mergeRun = Inr \<lparr>contact = \<lparr>primaryContactId = 1,
        emails = [''a@x.com'', ''b@y.com'', ''c@y.com''], phoneNumbers = [''111'', ''222''],
        secondaryContactIds = [2, 3, 4]\<rparr>\<rparr>"
    unfolding mergeRun_def by code_simp
  have c: "candidates (visible twoGroups) (req ''a@x.com'' ''222'')
       = [row 1 ''a@x.com'' ''111'' None 100000, row 2 ''b@y.com'' ''222'' None 200000]"
    by code_simp
  from r have "identify (reliable 400000) (req ''a@x.com'' ''222'') twoGroups
          = (Inr \<lparr>contact = \<lparr>primaryContactId = 1,
        emails = [''a@x.com'', ''b@y.com'', ''c@y.com''], phoneNumbers = [''111'', ''222''],
        secondaryContactIds = [2, 3, 4]\<rparr>\<rparr>, snd mergeRun)"
    by (simp add: mergeRun_def prod_eq_iff)
  from response_describes_group[OF this] r c show ?thesis
    by simp
qed

text \<open>
  Claim C10. In the response of a request that returns, \<^verbatim>\<open>emails\<close> and \<^verbatim>\<open>phoneNumbers\<close>
  are in ascending lexicographic order of their code units (strictly, since no value
  repeats); the primary's own value gets no special place.
\<close>

theorem response_values_ascending:
  assumes "identify env request db = (Inr resp, db')"
  shows "sorted_wrt codeUnitLess (emails (contact resp))
       \<and> sorted_wrt codeUnitLess (phoneNumbers (contact resp))"
  using identify_Inr_visible(2)[OF assms]
  by (simp add: buildResponse_def sort_codeUnitLess collect_distinct)

theorem response_values_ascending_witness:
  "fst mergeRun = Inr \<lparr>contact = \<lparr>primaryContactId = 1,
        emails = [''a@x.com'', ''b@y.com'', ''c@y.com''], phoneNumbers = [''111'', ''222''],
        secondaryContactIds = [2, 3, 4]\<rparr>\<rparr>
   \<and> sorted_wrt codeUnitLess [''a@x.com'', ''b@y.com'', ''c@y.com'']
   \<and> sorted_wrt codeUnitLess [''111'', ''222'']"
proof -
  have r: "fst mergeRun = Inr \<lparr>contact = \<lparr>primaryContactId = 1,
        emails = [''a@x.com'', ''b@y.com'', ''c@y.com''], phoneNumbers = [''111'', ''222''],
        secondaryContactIds = [2, 3, 4]\<rparr>\<rparr>"
    unfolding mergeRun_def by code_simp
  then have "identify (reliable 400000) (req ''a@x.com'' ''222'') twoGroups
          = (Inr \<lparr>contact = \<lparr>primaryContactId = 1,
        emails = [''a@x.com'', ''b@y.com'', ''c@y.com''], phoneNumbers = [''111'', ''222''],
        secondaryContactIds = [2, 3, 4]\<rparr>\<rparr>, snd mergeRun)"
    by (simp add: mergeRun_def prod_eq_iff)
  from response_values_ascending[OF this] r show ?thesis
    by simp
qed

text \<open>
  Claim C5, amended. The list that the loader returns holds the live primary that each
  directly matched secondary links to, and each directly matched primary; every
  element is a live primary row that was matched directly or that a directly matched
  secondary links to; no id occurs twice; and a record created in an earlier
  millisecond, as \<^verbatim>\<open>Date.getTime()\<close> counts them, comes before one created in a later
  millisecond. Nothing is said here about records created within the same millisecond;
  the id is not what orders them: see the counterexample.
\<close>

theorem loadPrimaryContacts_candidates:
  assumes "loadPrimaryContacts env request db = (Inr primaryContacts, db')"
  shows "(\<forall>s \<in> set (findContacts_rows (visible db) (email_r request) (phoneNumber_r request)).
            \<forall>l p. linkPrecedence s = Secondary \<and> linkedId s = Some l
                  \<and> findById_rows (visible db) l = Some p \<and> linkPrecedence p = Primary
               \<longrightarrow> l \<in> id_c ` set primaryContacts)
       \<and> (\<forall>c \<in> set (findContacts_rows (visible db) (email_r request) (phoneNumber_r request)).
            linkPrecedence c = Primary \<longrightarrow> id_c c \<in> id_c ` set primaryContacts)
       \<and> (\<forall>c \<in> set primaryContacts.
            c \<in> set (visible db) \<and> deletedAt c = None \<and> linkPrecedence c = Primary
            \<and> (id_c c \<in> id_c ` set (findContacts_rows (visible db) (email_r request)
                                        (phoneNumber_r request))
               \<or> (\<exists>s \<in> set (findContacts_rows (visible db) (email_r request)
                                 (phoneNumber_r request)).
                     linkPrecedence s = Secondary \<and> linkedId s = Some (id_c c))))
       \<and> distinct (map id_c primaryContacts)
       \<and> sorted (map (\<lambda>c. getTime (createdAt c)) primaryContacts)"
proof -
  from loadPrimaryContacts_Inr[OF assms]
  have ps: "primaryContacts = candidates (visible db) request" by simp
  have 1: "\<forall>s \<in> set (findContacts_rows (visible db) (email_r request) (phoneNumber_r request)).
            \<forall>l p. linkPrecedence s = Secondary \<and> linkedId s = Some l
                  \<and> findById_rows (visible db) l = Some p \<and> linkPrecedence p = Primary
               \<longrightarrow> l \<in> id_c ` set primaryContacts"
    unfolding ps candidates_ids pushedPrimaries_ids by blast
  have 2: "\<forall>c \<in> set (findContacts_rows (visible db) (email_r request) (phoneNumber_r request)).
            linkPrecedence c = Primary \<longrightarrow> id_c c \<in> id_c ` set primaryContacts"
    unfolding ps candidates_ids pushedPrimaries_ids by blast
  have 3: "\<forall>c \<in> set primaryContacts.
            c \<in> set (visible db) \<and> deletedAt c = None \<and> linkPrecedence c = Primary"
    unfolding ps using candidates_subset by blast
  have 6: "\<forall>c \<in> set primaryContacts.
            id_c c \<in> id_c ` set (findContacts_rows (visible db) (email_r request)
                                       (phoneNumber_r request))
            \<or> (\<exists>s \<in> set (findContacts_rows (visible db) (email_r request)
                              (phoneNumber_r request)).
                  linkPrecedence s = Secondary \<and> linkedId s = Some (id_c c))"
  proof
    fix c assume "c \<in> set primaryContacts"
    then have "id_c c \<in> id_c ` set (candidates (visible db) request)"
      unfolding ps by simp
    then have "id_c c \<in> id_c ` set (pushedPrimaries (visible db) request)"
      by (simp only: candidates_ids)
    then show "id_c c \<in> id_c ` set (findContacts_rows (visible db) (email_r request)
                                       (phoneNumber_r request))
            \<or> (\<exists>s \<in> set (findContacts_rows (visible db) (email_r request)
                              (phoneNumber_r request)).
                  linkPrecedence s = Secondary \<and> linkedId s = Some (id_c c))"
      unfolding pushedPrimaries_ids by blast
  qed
  have 4: "distinct (map id_c primaryContacts)"
    unfolding ps by (rule candidates_distinct)
  have 5: "sorted (map (\<lambda>c. getTime (createdAt c)) primaryContacts)"
    unfolding ps by (rule candidates_sorted)
  from 1 2 3 4 5 6 show ?thesis by blast
qed

theorem loadPrimaryContacts_candidates_witness:
  "fst tiedLoad = Inr [row 2 ''b@y.com'' ''222'' None 100000, row 1 ''a@x.com'' ''111'' None 100000]
   \<and> 1 \<in> id_c ` set [row 2 ''b@y.com'' ''222'' None 100000, row 1 ''a@x.com'' ''111'' None 100000]
   \<and> distinct (map id_c [row 2 ''b@y.com'' ''222'' None 100000, row 1 ''a@x.com'' ''111'' None 100000])
   \<and> sorted (map (\<lambda>c. getTime (createdAt c))
               [row 2 ''b@y.com'' ''222'' None 100000, row 1 ''a@x.com'' ''111'' None 100000])"
proof -
  have r: "fst tiedLoad = Inr [row 2 ''b@y.com'' ''222'' None 100000, row 1 ''a@x.com'' ''111'' None 100000]"
    unfolding tiedLoad_def by code_simp
  then have e: "loadPrimaryContacts (reliable 300000) (req ''c@x.com'' ''222'') tiedGroups
          = (Inr [row 2 ''b@y.com'' ''222'' None 100000, row 1 ''a@x.com'' ''111'' None 100000], snd tiedLoad)"
    by (simp add: tiedLoad_def prod_eq_iff)
  have m: "row 3 ''c@x.com'' ''111'' (Some 1) 200000
             \<in> set (findContacts_rows (visible tiedGroups) (email_r (req ''c@x.com'' ''222''))
                       (phoneNumber_r (req ''c@x.com'' ''222'')))"
    by code_simp
  have f: "linkPrecedence (row 3 ''c@x.com'' ''111'' (Some 1) 200000) = Secondary
           \<and> linkedId (row 3 ''c@x.com'' ''111'' (Some 1) 200000) = Some 1
           \<and> findById_rows (visible tiedGroups) 1 = Some (row 1 ''a@x.com'' ''111'' None 100000)
           \<and> linkPrecedence (row 1 ''a@x.com'' ''111'' None 100000) = Primary"
    by code_simp
  from loadPrimaryContacts_candidates[OF e] m f r show ?thesis
    by blast
qed

text \<open>Two primaries created at the same microsecond come with the higher id first; and
  when primary 2 is created 0.8 milliseconds after primary 1, within the same
  millisecond, the list does not even ascend by \<^verbatim>\<open>createdAt\<close>.\<close>

theorem loadPrimaryContacts_order_counterexample:
  "fst tiedLoad = Inr [row 2 ''b@y.com'' ''222'' None 100000, row 1 ''a@x.com'' ''111'' None 100000]
   \<and> \<not> tieBrokenById_spec [row 2 ''b@y.com'' ''222'' None 100000, row 1 ''a@x.com'' ''111'' None 100000]
   \<and> fst closeLoad = Inr [row 2 ''b@y.com'' ''222'' None 100800, row 1 ''a@x.com'' ''111'' None 100000]
   \<and> createdAt (row 1 ''a@x.com'' ''111'' None 100000) < createdAt (row 2 ''b@y.com'' ''222'' None 100800)
   \<and> \<not> tieBrokenById_spec [row 2 ''b@y.com'' ''222'' None 100800, row 1 ''a@x.com'' ''111'' None 100000]"
proof -
  have "fst tiedLoad = Inr [row 2 ''b@y.com'' ''222'' None 100000, row 1 ''a@x.com'' ''111'' None 100000]"
    unfolding tiedLoad_def by code_simp
  moreover have "\<not> tieBrokenById_spec [row 2 ''b@y.com'' ''222'' None 100000, row 1 ''a@x.com'' ''111'' None 100000]"
    by (simp add: tieBrokenById_spec_def row_def)
  moreover have "fst closeLoad = Inr [row 2 ''b@y.com'' ''222'' None 100800, row 1 ''a@x.com'' ''111'' None 100000]"
    unfolding closeLoad_def by code_simp
  moreover have "\<not> tieBrokenById_spec [row 2 ''b@y.com'' ''222'' None 100800, row 1 ''a@x.com'' ''111'' None 100000]"
    by (simp add: tieBrokenById_spec_def row_def)
  ultimately show ?thesis by (simp add: row_def)
qed




text \<open>
  Claim C1, at a store built by three requests from the empty one. Primary 1 is created
  0.8 milliseconds before primary 2, within the same millisecond, and record 3 is a
  secondary of 1. The request has the email of record 3, which is of the group of the
  older primary 1, and the phone number of primary 2. The claim has primary 2 demoted
  and \<^verbatim>\<open>primaryContactId = 1\<close>; the code, which says ``Oldest primary becomes the ultimate
  primary'' (line 69), compares \<^verbatim>\<open>getTime()\<close>, finds the two equal, keeps primary 2, which
  it found first, and demotes the older primary 1.
\<close>

theorem identify_demotes_older_primary:
  "contacts closeStore = [row 1 ''a@x.com'' ''111'' None 100000,
                          row 2 ''b@y.com'' ''222'' None 100800,
                          row 3 ''c@x.com'' ''111'' (Some 1) 200000]
   \<and> createdAt (row 1 ''a@x.com'' ''111'' None 100000) < createdAt (row 2 ''b@y.com'' ''222'' None 100800)
   \<and> fst closeRun = Inr \<lparr>contact = \<lparr>primaryContactId = 2,
          emails = [''a@x.com'', ''b@y.com'', ''c@x.com''], phoneNumbers = [''111'', ''222''],
          secondaryContactIds = [1, 3, 4]\<rparr>\<rparr>
   \<and> contacts (snd closeRun)
       = [(row 1 ''a@x.com'' ''111'' (Some 2) 100000)\<lparr>updatedAt := 300000\<rparr>,
          row 2 ''b@y.com'' ''222'' None 100800,
          (row 3 ''c@x.com'' ''111'' (Some 2) 200000)\<lparr>updatedAt := 300000\<rparr>,
          row 4 ''c@x.com'' ''222'' (Some 2) 300000]"
proof -
  have 1: "contacts closeStore = [row 1 ''a@x.com'' ''111'' None 100000,
                          row 2 ''b@y.com'' ''222'' None 100800,
                          row 3 ''c@x.com'' ''111'' (Some 1) 200000]"
    unfolding closeStore_def closeOps_def by code_simp
  have 2: "fst closeRun = Inr \<lparr>contact = \<lparr>primaryContactId = 2,
          emails = [''a@x.com'', ''b@y.com'', ''c@x.com''], phoneNumbers = [''111'', ''222''],
          secondaryContactIds = [1, 3, 4]\<rparr>\<rparr>"
    unfolding closeRun_def closeStore_def closeOps_def by code_simp
  have 3: "contacts (snd closeRun)
       = [(row 1 ''a@x.com'' ''111'' (Some 2) 100000)\<lparr>updatedAt := 300000\<rparr>,
          row 2 ''b@y.com'' ''222'' None 100800,
          (row 3 ''c@x.com'' ''111'' (Some 2) 200000)\<lparr>updatedAt := 300000\<rparr>,
          row 4 ''c@x.com'' ''222'' (Some 2) 300000]"
    unfolding closeRun_def closeStore_def closeOps_def by code_simp
  from 1 2 3 show ?thesis by (simp add: row_def)
qed

text \<open>
  Claim C2, at the sixth request of the local test suite. After TC1 to TC5 the group of
  primary 1 holds the email of the request in record 3 and its phone number in records
  4 and 5, so the pair is already present as the claim counts it, and the suite labels
  the request ``Input Already Covered''. No single record holds both values, and the
  code adds record 6.
\<close>

theorem identify_adds_covered_input:
  "contacts afterTC5
     = [row 1 ''test1@example.com'' ''1111111111'' None 1000000,
        row 2 ''test1@example.com'' ''2222222222'' (Some 1) 2000000,
        row 3 ''test1_alt@example.com'' ''1111111111'' (Some 1) 3000000,
        (row 4 ''test_merge@example.com'' ''9999999999'' (Some 1) 4000000)\<lparr>updatedAt := 5000000\<rparr>,
        row 5 ''test1@example.com'' ''9999999999'' (Some 1) 5000000]
   \<and> candidates (contacts afterTC5) (req ''test1_alt@example.com'' ''9999999999'')
       = [row 1 ''test1@example.com'' ''1111111111'' None 1000000]
   \<and> groupOf (contacts afterTC5) 1 = contacts afterTC5
   \<and> pairAlreadyPresent_spec (req ''test1_alt@example.com'' ''9999999999'') (groupOf (contacts afterTC5) 1)
   \<and> fst runTC6 = Inr \<lparr>contact = \<lparr>primaryContactId = 1,
          emails = [''test1@example.com'', ''test1_alt@example.com'', ''test_merge@example.com''],
          phoneNumbers = [''1111111111'', ''2222222222'', ''9999999999''],
          secondaryContactIds = [2, 3, 4, 5, 6]\<rparr>\<rparr>
   \<and> contacts (snd runTC6)
       = contacts afterTC5 @ [row 6 ''test1_alt@example.com'' ''9999999999'' (Some 1) 6000000]"
proof -
  let ?rows = "[row 1 ''test1@example.com'' ''1111111111'' None 1000000,
        row 2 ''test1@example.com'' ''2222222222'' (Some 1) 2000000,
        row 3 ''test1_alt@example.com'' ''1111111111'' (Some 1) 3000000,
        (row 4 ''test_merge@example.com'' ''9999999999'' (Some 1) 4000000)\<lparr>updatedAt := 5000000\<rparr>,
        row 5 ''test1@example.com'' ''9999999999'' (Some 1) 5000000]"
  have d: "afterTC5 = \<lparr>contacts = ?rows, pending = None, contact_id_seq = 6, statements = 31\<rparr>"
    unfolding afterTC5_def localTests_def by code_simp
  have 1: "contacts afterTC5 = ?rows"
    by (simp add: d)
  have 2: "candidates ?rows (req ''test1_alt@example.com'' ''9999999999'')
       = [row 1 ''test1@example.com'' ''1111111111'' None 1000000]"
    by code_simp
  have 3: "groupOf ?rows 1 = ?rows"
    by (simp add: groupOf_def row_def)
  have 4: "pairAlreadyPresent_spec (req ''test1_alt@example.com'' ''9999999999'') ?rows"
    by (simp add: pairAlreadyPresent_spec_def fieldSatisfied_spec_def req_def row_def)
  have 5: "fst runTC6 = Inr \<lparr>contact = \<lparr>primaryContactId = 1,
          emails = [''test1@example.com'', ''test1_alt@example.com'', ''test_merge@example.com''],
          phoneNumbers = [''1111111111'', ''2222222222'', ''9999999999''],
          secondaryContactIds = [2, 3, 4, 5, 6]\<rparr>\<rparr>"
    unfolding runTC6_def d by code_simp
  have 6: "contacts (snd runTC6)
       = ?rows @ [row 6 ''test1_alt@example.com'' ''9999999999'' (Some 1) 6000000]"
    unfolding runTC6_def d by code_simp
  from 2 3 4 5 6 show ?thesis unfolding 1 by simp
qed




text \<open>
  Claim C4 (flatness). On a store whose ids are unique and below the sequence and on
  which no transaction is open, as after every request, if the link of every live
  secondary names a primary, then after a request, whether it returns or fails, the
  ids are still unique, no transaction is open, the link of every live secondary still
  names a primary, and no record it names is a secondary: one hop always ends at a
  primary.
\<close>

theorem identify_keeps_flat:
  assumes "keysOk db" and "pending db = None" and "flat (contacts db)"
    and "identify env request db = (res, db')"
  shows "keysOk db' \<and> pending db' = None \<and> flat (contacts db')
       \<and> (\<forall>s \<in> set (contacts db'). deletedAt s = None \<and> linkPrecedence s = Secondary \<longrightarrow>
             (\<forall>q \<in> set (contacts db'). linkedId s = Some (id_c q) \<longrightarrow> linkPrecedence q = Primary))"
proof -
  have k: "keysOk db'" using assms(1,2,4) by (rule identify_keysOk)
  have p: "pending db' = None" using assms(2,4) by (rule identify_pending)
  have f: "flat (contacts db')"
  proof (cases res)
    case (Inl e)
    with assms(4) have "contacts db' = contacts db" by (simp add: identify_Inl)
    with assms(3) show ?thesis by simp
  next
    case (Inr resp)
    with assms(4) have "identify env request db = (Inr resp, db')" by simp
    from identify_Inr(1)[OF assms(2) this] assms(3) show ?thesis by (simp add: flat_finalRows)
  qed
  have "linkPrecedence q = Primary"
    if s: "s \<in> set (contacts db')" "deletedAt s = None \<and> linkPrecedence s = Secondary"
      and q: "q \<in> set (contacts db')" "linkedId s = Some (id_c q)" for s q
  proof -
    from f s obtain p where p: "p \<in> set (contacts db')" "linkPrecedence p = Primary"
      "linkedId s = Some (id_c p)" unfolding flat_def by blast
    with q have "id_c q = id_c p" by simp
    with q(1) p(1) k have "q = p" using same_id_same_row by (simp add: keysOk_def) blast
    with p(2) show ?thesis by simp
  qed
  with k p f show ?thesis by blast
qed

theorem identify_keeps_flat_witness:
  "keysOk twoGroups \<and> pending twoGroups = None \<and> flat (contacts twoGroups)
   \<and> contacts (snd mergeRun)
       = [row 1 ''a@x.com'' ''111'' None 100000,
          (row 2 ''b@y.com'' ''222'' (Some 1) 200000)\<lparr>updatedAt := 400000\<rparr>,
          (row 3 ''c@y.com'' ''222'' (Some 1) 300000)\<lparr>updatedAt := 400000\<rparr>,
          row 4 ''a@x.com'' ''222'' (Some 1) 400000]
   \<and> keysOk (snd mergeRun) \<and> pending (snd mergeRun) = None \<and> flat (contacts (snd mergeRun))"
proof -
  have k: "keysOk twoGroups"
    by (simp add: keysOk_def twoGroups_def row_def)
  have p: "pending twoGroups = None"
    by (simp add: twoGroups_def)
  have f: "flat (contacts twoGroups)"
    by (simp add: flat_def twoGroups_def row_def)
  have c: "contacts (snd mergeRun)
       = [row 1 ''a@x.com'' ''111'' None 100000,
          (row 2 ''b@y.com'' ''222'' (Some 1) 200000)\<lparr>updatedAt := 400000\<rparr>,
          (row 3 ''c@y.com'' ''222'' (Some 1) 300000)\<lparr>updatedAt := 400000\<rparr>,
          row 4 ''a@x.com'' ''222'' (Some 1) 400000]"
    unfolding mergeRun_def by code_simp
  have "identify (reliable 400000) (req ''a@x.com'' ''222'') twoGroups = (fst mergeRun, snd mergeRun)"
    by (simp add: mergeRun_def)
  from identify_keeps_flat[OF k p f this] k p f c show ?thesis by simp
qed

end
